theory Spec2Isabelle
  imports
    Complex_Main
    "HOL-Library.Multiset"
    "HOL-Library.Product_Lexorder"
    "HOL-Library.AList"
begin

section \<open>Model of single_keyword_research.py\<close>

text \<open>
  Python strings are modelled as \<^typ>\<open>string\<close>. Python floats are modelled as
  \<^typ>\<open>real\<close>: every float the code computes is a quotient of two small counts times
  100, or a difference of clock readings, and no claim depends on rounding error.
  An exception that escapes a function is the \<open>Inl\<close> branch of a sum, carrying its message.
\<close>

subsection \<open>URL normalizer and overlap scorer\<close>

text \<open>
  \<open>str.lower()\<close> on ASCII text: the letters \<open>A..Z\<close> (codes 65..90) move to
  \<open>a..z\<close>, every other character is kept. Python also lowercases the cased characters
  outside ASCII, which the 8-bit characters of \<^typ>\<open>string\<close> do not represent; the
  proofs about the overlap scorer do not look into \<open>lower\<close>, and the input of the
  one evaluation of the normalizer is ASCII.
\<close>

definition lower_char :: "char \<Rightarrow> char" where
  "lower_char c =
     (let n = (of_char c :: nat) in if 65 \<le> n \<and> n \<le> 90 then char_of (n + 32) else c)"

definition lower :: "string \<Rightarrow> string" where
  "lower s = map lower_char s"

text \<open>\<open>s.rstrip(c)\<close>: drop every trailing occurrence of the character \<open>c\<close>.\<close>

definition rstrip :: "char \<Rightarrow> string \<Rightarrow> string" where
  "rstrip c s = rev (dropWhile (\<lambda>x. x = c) (rev s))"

text \<open>\<open>s.split(c)[0]\<close>: the part of \<open>s\<close> before the first occurrence of \<open>c\<close>.\<close>

definition split_first :: "char \<Rightarrow> string \<Rightarrow> string" where
  "split_first c s = takeWhile (\<lambda>x. x \<noteq> c) s"

definition normalize_url :: "string \<Rightarrow> string" where
  "normalize_url url =
     (if url = [] then url
      else let url = rstrip CHR ''/'' url;
               url = (if CHR ''?'' \<in> set url then split_first CHR ''?'' url else url);
               url = (if CHR ''#'' \<in> set url then split_first CHR ''#'' url else url)
           in lower url)"

definition calculate_url_overlap :: "string list \<Rightarrow> string list \<Rightarrow> real" where
  "calculate_url_overlap urls1 urls2 =
     (if urls1 = [] \<or> urls2 = [] then 0
      else let normalized_urls1 = set (map normalize_url urls1);
               normalized_urls2 = set (map normalize_url urls2);
               overlap = card (normalized_urls1 \<inter> normalized_urls2);
               total = card normalized_urls1
           in if total > 0 then (real overlap / real total) * 100 else 0)"

text \<open>
  The reference definition, in the words of the specification: both lists are normalized
  into sets; if either set is empty the result is 0; otherwise it is the size of the
  intersection over the size of the original set, times 100.
\<close>

definition overlap_reference :: "string list \<Rightarrow> string list \<Rightarrow> real" where
  "overlap_reference original candidate =
     (let N1 = normalize_url ` set original;
          N2 = normalize_url ` set candidate
      in if N1 = {} \<or> N2 = {} then 0
         else real (card (N1 \<inter> N2)) / real (card N1) * 100)"

subsection \<open>Data of the research pipeline\<close>

text \<open>One entry of the \<open>items\<close> list of a SERP response.\<close>

record serp_item =
  item_type :: string
  item_url :: string

text \<open>
  A ranked-keyword record as \<open>get_ranked_keywords\<close> builds it. \<open>search_volume\<close>,
  \<open>cpc\<close> and \<open>competition\<close> may be \<open>None\<close> (JSON null).
\<close>

record keyword_record =
  keyword :: string
  position :: int
  search_volume :: "int option"
  cpc :: "real option"
  competition :: "real option"

record supporting_keyword =
  sk_keyword :: string
  overlap_percentage :: real
  sk_search_volume :: "int option"
  sk_cpc :: "real option"
  sk_position :: int
  top_10_urls :: "string list"

text \<open>
  The external service, seen through the two methods that call it. \<open>get_serp_data\<close>
  returns \<open>None\<close> on a request failure or an API error, otherwise the result whose
  \<open>items\<close> are given; \<open>get_ranked_keywords\<close> returns the filtered records. Either may
  raise an exception that is not a \<open>RequestException\<close> (\<open>Inl\<close>). Within one run the
  answer of the service is a function of the request.
\<close>

record services =
  get_serp_data :: "string \<Rightarrow> string + serp_item list option"
  get_ranked_keywords :: "string \<Rightarrow> string + keyword_record list"

subsection \<open>Python built-ins\<close>

text \<open>\<open>x or 0\<close> on a number that may be \<open>None\<close>.\<close>

definition or_zero :: "'a::zero option \<Rightarrow> 'a" where
  "or_zero v = (case v of None \<Rightarrow> 0 | Some x \<Rightarrow> x)"

text \<open>\<open>round(x, ndigits)\<close>: the closest multiple of \<open>10^-ndigits\<close>, ties to even.\<close>

definition round_half_even :: "real \<Rightarrow> int" where
  "round_half_even x =
     (let f = \<lfloor>x\<rfloor>; d = x - of_int f
      in if d < 1 / 2 then f else if 1 / 2 < d then f + 1 else if even f then f else f + 1)"

definition py_round :: "real \<Rightarrow> nat \<Rightarrow> real" where
  "py_round x ndigits = of_int (round_half_even (x * 10 ^ ndigits)) / 10 ^ ndigits"

subsection \<open>The three stages of research_keyword\<close>

text \<open>The loop of \<open>get_keyword_serp_urls\<close>: organic items only, at most 10 URLs.\<close>

fun collect_organic_urls :: "serp_item list \<Rightarrow> string list \<Rightarrow> string list" where
  "collect_organic_urls [] urls = urls"
| "collect_organic_urls (item # items) urls =
     collect_organic_urls items
       (if item_type item = ''organic'' \<and> length urls < 10 then urls @ [item_url item]
        else urls)"

definition get_keyword_serp_urls :: "services \<Rightarrow> string \<Rightarrow> string + string list" where
  "get_keyword_serp_urls svc kw =
     (case get_serp_data svc kw of
        Inl e \<Rightarrow> Inl e
      | Inr None \<Rightarrow> Inr []
      | Inr (Some items) \<Rightarrow> Inr (collect_organic_urls items []))"

text \<open>Stage 2, the harvesting loop over the top 3 URLs.\<close>

fun harvest_keywords ::
  "services \<Rightarrow> string list \<Rightarrow> keyword_record list \<Rightarrow> string + keyword_record list" where
  "harvest_keywords svc [] all_keywords = Inr all_keywords"
| "harvest_keywords svc (url # urls) all_keywords =
     (case get_ranked_keywords svc url of
        Inl e \<Rightarrow> Inl e
      | Inr keywords \<Rightarrow> harvest_keywords svc urls (all_keywords @ keywords))"

text \<open>
  Stage 2, deduplication. The dictionary \<open>unique_keywords\<close> keeps insertion order, so it
  is an association list; \<open>AList.update\<close> replaces the value of a present key in place
  and appends an absent key, as the assignment \<open>unique_keywords[keyword_text] = kw\<close> does.
\<close>

definition unique_keywords_step ::
  "(string \<times> keyword_record) list \<Rightarrow> keyword_record \<Rightarrow> (string \<times> keyword_record) list" where
  "unique_keywords_step unique_keywords kw =
     (let keyword_text = keyword kw
      in case map_of unique_keywords keyword_text of
           None \<Rightarrow> AList.update keyword_text kw unique_keywords
         | Some old \<Rightarrow>
             if position kw < position old then AList.update keyword_text kw unique_keywords
             else unique_keywords)"

definition deduplicate :: "keyword_record list \<Rightarrow> (string \<times> keyword_record) list" where
  "deduplicate all_keywords = foldl unique_keywords_step [] all_keywords"

text \<open>
  Stage 2, sorting: \<open>sorted(unique_keywords.values(), key=...)\<close> with the key
  \<open>(-(search_volume or 0), -(cpc or 0))\<close>. Python compares the tuples lexicographically
  and its sort is stable; \<open>sort_key\<close> is the stable sort of the library.
\<close>

definition volume_cpc_key :: "keyword_record \<Rightarrow> int \<times> real" where
  "volume_cpc_key x = (- or_zero (search_volume x), - or_zero (cpc x))"

definition sort_keywords :: "keyword_record list \<Rightarrow> keyword_record list" where
  "sort_keywords unique_values = sort_key volume_cpc_key unique_values"

text \<open>
  Stage 3, the selection loop. It stops once 4 supporting keywords are collected; a
  candidate without URLs is skipped.
\<close>

fun select_supporting ::
  "services \<Rightarrow> string list \<Rightarrow> keyword_record list \<Rightarrow> supporting_keyword list
     \<Rightarrow> string + supporting_keyword list" where
  "select_supporting svc original_top_10_urls [] supporting = Inr supporting"
| "select_supporting svc original_top_10_urls (kw_data # rest) supporting =
     (if length supporting \<ge> 4 then Inr supporting
      else case get_keyword_serp_urls svc (keyword kw_data) of
             Inl e \<Rightarrow> Inl e
           | Inr keyword_urls \<Rightarrow>
               if keyword_urls \<noteq> [] then
                 let overlap = calculate_url_overlap original_top_10_urls keyword_urls
                 in if overlap \<ge> 40 then
                      select_supporting svc original_top_10_urls rest
                        (supporting @
                          [\<lparr>sk_keyword = keyword kw_data,
                            overlap_percentage = py_round overlap 1,
                            sk_search_volume = search_volume kw_data,
                            sk_cpc = cpc kw_data,
                            sk_position = position kw_data,
                            top_10_urls = take 10 keyword_urls\<rparr>])
                    else select_supporting svc original_top_10_urls rest supporting
               else select_supporting svc original_top_10_urls rest supporting)"

text \<open>
  The dictionary returned by \<open>research_keyword\<close>. A key that a return statement leaves
  out is \<open>None\<close>. The keys \<open>processing_time\<close> and \<open>timestamp\<close> hold formatted
  clock readings and are left out of the model.
\<close>

record research_result =
  error :: "string option"
  input_keyword :: string
  original_top_10_urls :: "string list option"
  keywords_from_top_3_urls :: "keyword_record list option"
  supporting_keywords :: "supporting_keyword list option"
  total_supporting_keywords_found :: "nat option"

text \<open>
  \<open>research_keyword\<close>. Writing the result files (\<open>save_results_to_files\<close>) catches its
  own errors and does not change the returned dictionary; it is left out.
\<close>

definition research_keyword :: "services \<Rightarrow> string \<Rightarrow> string + research_result" where
  "research_keyword svc kw =
     (case get_keyword_serp_urls svc kw of
        Inl e \<Rightarrow> Inl e
      | Inr original \<Rightarrow>
          if original = [] then
            Inr \<lparr>error = Some ''Failed to get top 10 URLs for the keyword'',
                 input_keyword = kw,
                 original_top_10_urls = None,
                 keywords_from_top_3_urls = None,
                 supporting_keywords = None,
                 total_supporting_keywords_found = None\<rparr>
          else
            case harvest_keywords svc (take 3 original) [] of
              Inl e \<Rightarrow> Inl e
            | Inr all_keywords \<Rightarrow>
                let sorted_keywords = sort_keywords (map snd (deduplicate all_keywords))
                in if length sorted_keywords = 0 then
                     Inr \<lparr>error = Some ''No ranking keywords found from DataForSEO Labs API'',
                          input_keyword = kw,
                          original_top_10_urls = Some original,
                          keywords_from_top_3_urls = Some [],
                          supporting_keywords = Some [],
                          total_supporting_keywords_found = Some 0\<rparr>
                   else
                     case select_supporting svc original sorted_keywords [] of
                       Inl e \<Rightarrow> Inl e
                     | Inr supporting \<Rightarrow>
                         Inr \<lparr>error = None,
                              input_keyword = kw,
                              original_top_10_urls = Some original,
                              keywords_from_top_3_urls = Some (take 20 sorted_keywords),
                              supporting_keywords = Some supporting,
                              total_supporting_keywords_found = Some (length supporting)\<rparr>)"

text \<open>
  The reference for deduplication, in the words of the specification: among the records
  with keyword text \<open>k\<close>, the first one (in harvesting order) whose position is the
  lowest.
\<close>

definition lowest_position_first_seen ::
  "keyword_record list \<Rightarrow> string \<Rightarrow> keyword_record option" where
  "lowest_position_first_seen recs k =
     (let same = filter (\<lambda>r. keyword r = k) recs
      in List.find (\<lambda>r. \<forall>r' \<in> set same. position r \<le> position r') same)"

section \<open>Model of batch_keyword_research_optimized.py\<close>

subsection \<open>State, configuration and environment\<close>

text \<open>
  The SQLite table \<open>cache\<close> maps a key to the stored value, as a later \<open>json.loads\<close>
  reads it back, and to its \<open>expires_at\<close> time. The other fields are the counters and
  the rate limiter's time stamp. Times of \<open>datetime.now()\<close> are in seconds since
  \<open>datetime.min\<close> (0001-01-01 00:00:00).
\<close>

record 'v researcher_state =
  cache :: "string \<rightharpoonup> ('v \<times> real)"
  cache_hits :: nat
  api_calls :: nat
  last_request_time :: real

text \<open>
  What one call reads from outside the program: whether the SQLite statements succeed
  (a failure raises, and both cache methods catch it), and the clock readings, one field
  for every place where the source reads the clock.
\<close>

record environment =
  db_read_ok :: bool
  db_write_ok :: bool
  read_now :: real
  write_now :: real
  limiter_now :: real
  limiter_after :: real
  row_time_1 :: real
  row_time_2 :: real

text \<open>
  The fields of \<open>OptimizedBatchKeywordResearcher\<close> that the modelled methods read,
  the hash function behind \<open>hashlib.md5(...).hexdigest()\<close>, and the external service
  that the \<open>KeywordResearcher\<close> instances talk to.
\<close>

record batch_config =
  username :: string
  cache_ttl_hours :: int
  md5_hexdigest :: "string \<Rightarrow> string"
  service :: services

definition min_request_interval :: real where
  "min_request_interval = 1 / 10"

subsection \<open>Cache store and rate limiter\<close>

definition get_cache_key :: "batch_config \<Rightarrow> string \<Rightarrow> string \<Rightarrow> string" where
  "get_cache_key cfg kw operation =
     md5_hexdigest cfg (kw @ ''_'' @ operation @ ''_'' @ username cfg)"

definition get_from_cache ::
  "environment \<Rightarrow> 'v researcher_state \<Rightarrow> string \<Rightarrow> 'v option \<times> 'v researcher_state" where
  "get_from_cache env s cache_key =
     (if \<not> db_read_ok env then (None, s)
      else case cache s cache_key of
             None \<Rightarrow> (None, s)
           | Some (v, expires_at) \<Rightarrow>
               if expires_at > read_now env then (Some v, s\<lparr>cache_hits := cache_hits s + 1\<rparr>)
               else (None, s))"

text \<open>
  \<open>timedelta(hours=h)\<close> raises \<open>OverflowError\<close> unless its days are within
  \<open>\<plusminus>999999999\<close>, and adding it to a \<open>datetime\<close> raises \<open>OverflowError\<close> unless the
  result lies between \<open>datetime.min\<close> and \<open>datetime.max\<close> (the end of year 9999,
  315537897600 seconds after \<open>datetime.min\<close>).
\<close>

definition timedelta_hours_ok :: "int \<Rightarrow> bool" where
  "timedelta_hours_ok h = (- 999999999 * 24 \<le> h \<and> h \<le> 999999999 * 24 + 23)"

definition datetime_in_range :: "real \<Rightarrow> bool" where
  "datetime_in_range t = (0 \<le> t \<and> t < 315537897600)"

text \<open>
  \<open>save_to_cache\<close>. Everything happens inside one \<open>try\<close> whose \<open>except\<close> only logs,
  so the entry is written only if computing \<open>expires_at\<close> does not overflow, the SQLite
  statements succeed and \<open>json.dumps(data)\<close> does not raise. The argument \<open>reload\<close> is
  \<open>json.dumps\<close> followed by the \<open>json.loads\<close> of a later read: \<open>None\<close> when
  \<open>json.dumps\<close> raises, otherwise the value that will be read back.
\<close>

definition save_to_cache ::
  "('v \<Rightarrow> 'v option) \<Rightarrow> batch_config \<Rightarrow> environment \<Rightarrow> 'v researcher_state \<Rightarrow> string \<Rightarrow> 'v
     \<Rightarrow> 'v researcher_state" where
  "save_to_cache reload cfg env s cache_key data =
     (if \<not> timedelta_hours_ok (cache_ttl_hours cfg) then s
      else let expires_at = write_now env + 3600 * of_int (cache_ttl_hours cfg)
           in if \<not> datetime_in_range expires_at then s
              else if \<not> db_write_ok env then s
              else case reload data of
                     None \<Rightarrow> s
                   | Some stored \<Rightarrow> s\<lparr>cache := (cache s)(cache_key \<mapsto> (stored, expires_at))\<rparr>)"

text \<open>The expiry time of an entry written now can be computed without overflow.\<close>

definition expiry_representable :: "batch_config \<Rightarrow> environment \<Rightarrow> bool" where
  "expiry_representable cfg env =
     (timedelta_hours_ok (cache_ttl_hours cfg)
      \<and> datetime_in_range (write_now env + 3600 * of_int (cache_ttl_hours cfg)))"

text \<open>
  \<open>rate_limit\<close>, as one thread runs it while holding the lock. The result is the time
  it asks \<open>time.sleep\<close> for (0 when it does not sleep) and the new state;
  \<open>limiter_after\<close> is the clock reading taken after the sleep.
\<close>

definition rate_limit :: "environment \<Rightarrow> 'v researcher_state \<Rightarrow> real \<times> 'v researcher_state" where
  "rate_limit env s =
     (let current_time = limiter_now env;
          time_since_last = current_time - last_request_time s;
          slept = (if time_since_last < min_request_interval
                   then min_request_interval - time_since_last else 0)
      in (slept, s\<lparr>last_request_time := limiter_after env\<rparr>))"

text \<open>
  A run of the rate limiter under its lock. The \<open>with self.rate_limit_lock\<close> block lets
  one thread at a time run the body of \<open>rate_limit\<close>, so the calls of all worker
  threads happen one after the other, in the order in which the threads get the lock;
  \<open>calls\<close> is that order, each call with the thread that makes it and the clock
  readings it takes. The result lists the call times the run records: the value of
  \<open>last_request_time\<close> after each call.
\<close>

fun run_rate_limit :: "(nat \<times> environment) list \<Rightarrow> 'v researcher_state \<Rightarrow> real list" where
  "run_rate_limit [] s = []"
| "run_rate_limit ((thread, env) # calls) s =
     (let (slept, s) = rate_limit env s
      in last_request_time s # run_rate_limit calls s)"

text \<open>
  What the run needs from the clock and from \<open>time.sleep\<close>: in every call, the reading
  taken after the sleep is no earlier than the reading taken before it plus the time the
  call asked to sleep.
\<close>

fun sleeps_complete :: "(nat \<times> environment) list \<Rightarrow> 'v researcher_state \<Rightarrow> bool" where
  "sleeps_complete [] s = True"
| "sleeps_complete ((thread, env) # calls) s =
     (limiter_now env + fst (rate_limit env s) \<le> limiter_after env
      \<and> sleeps_complete calls (snd (rate_limit env s)))"

text \<open>
  The values a fetch function may return: \<open>None\<close>, booleans, integers, floats, strings,
  lists, tuples, dictionaries with string keys, and any other object (of which only the
  truth value matters here), with Python's truth test.
\<close>

datatype pyval =
    PNone
  | PBool bool
  | PInt int
  | PFloat real
  | PStr string
  | PList "pyval list"
  | PTuple "pyval list"
  | PDict "(string \<times> pyval) list"
  | PObject bool

fun truthy :: "pyval \<Rightarrow> bool" where
  "truthy PNone = False"
| "truthy (PBool b) = b"
| "truthy (PInt n) = (n \<noteq> 0)"
| "truthy (PFloat x) = (x \<noteq> 0)"
| "truthy (PStr s) = (s \<noteq> [])"
| "truthy (PList xs) = (xs \<noteq> [])"
| "truthy (PTuple xs) = (xs \<noteq> [])"
| "truthy (PDict kvs) = (kvs \<noteq> [])"
| "truthy (PObject b) = b"

text \<open>
  \<open>json.loads(json.dumps(v))\<close>: a tuple is written as an array and read back as a list;
  an object that is none of the JSON types makes \<open>json.dumps\<close> raise \<open>TypeError\<close>.
\<close>

fun json_roundtrip :: "pyval \<Rightarrow> pyval option" where
  "json_roundtrip PNone = Some PNone"
| "json_roundtrip (PBool b) = Some (PBool b)"
| "json_roundtrip (PInt n) = Some (PInt n)"
| "json_roundtrip (PFloat x) = Some (PFloat x)"
| "json_roundtrip (PStr s) = Some (PStr s)"
| "json_roundtrip (PList xs) = map_option PList (those (map json_roundtrip xs))"
| "json_roundtrip (PTuple xs) = map_option PList (those (map json_roundtrip xs))"
| "json_roundtrip (PDict kvs) =
     map_option PDict (those (map (\<lambda>(k, v). map_option (Pair k) (json_roundtrip v)) kvs))"
| "json_roundtrip (PObject b) = None"

text \<open>
  The values built only from \<open>None\<close>, booleans, numbers, strings, lists and
  dictionaries with string keys.
\<close>

fun json_shaped :: "pyval \<Rightarrow> bool" where
  "json_shaped (PList xs) = list_all json_shaped xs"
| "json_shaped (PTuple xs) = False"
| "json_shaped (PDict kvs) = list_all (\<lambda>(k, v). json_shaped v) kvs"
| "json_shaped (PObject b) = False"
| "json_shaped v = True"

text \<open>What a call does besides returning: waiting in the rate limiter, calling the fetch function.\<close>

datatype effect = RateLimit real | Fetch

text \<open>
  \<open>get_cached_or_fetch\<close>. The argument \<open>fetched\<close> is what \<open>fetch_func(*args, **kwargs)\<close>
  gives if it is called: a value, or an exception (\<open>Inl\<close>).
\<close>

definition fetch_and_cache ::
  "batch_config \<Rightarrow> environment \<Rightarrow> pyval researcher_state \<Rightarrow> string \<Rightarrow> string + pyval
     \<Rightarrow> (string + pyval) \<times> pyval researcher_state \<times> effect list" where
  "fetch_and_cache cfg env s cache_key fetched =
     (let (slept, s) = rate_limit env s
      in case fetched of
           Inl e \<Rightarrow> (Inl e, s, [RateLimit slept, Fetch])
         | Inr result \<Rightarrow>
             if truthy result then
               (let s = save_to_cache json_roundtrip cfg env s cache_key result
                in (Inr result, s\<lparr>api_calls := api_calls s + 1\<rparr>, [RateLimit slept, Fetch]))
             else (Inr result, s, [RateLimit slept, Fetch]))"

definition get_cached_or_fetch ::
  "batch_config \<Rightarrow> environment \<Rightarrow> pyval researcher_state \<Rightarrow> string \<Rightarrow> string + pyval
     \<Rightarrow> (string + pyval) \<times> pyval researcher_state \<times> effect list" where
  "get_cached_or_fetch cfg env s cache_key fetched =
     (let (cached_result, s) = get_from_cache env s cache_key
      in case cached_result of
           Some v \<Rightarrow>
             if truthy v then (Inr v, s, [])
             else fetch_and_cache cfg env s cache_key fetched
         | None \<Rightarrow> fetch_and_cache cfg env s cache_key fetched)"

subsection \<open>Processing one keyword\<close>

text \<open>
  An entry of the list that \<open>read_keywords_from_csv\<close> builds; \<open>original_row\<close> is the
  input row, a dictionary from column name to text.
\<close>

record kw_data =
  kw_row_number :: nat
  kw_keyword :: string
  original_row :: "(string \<times> string) list"

text \<open>
  A cell of an outcome row: a number, a text, or one of the two formatted texts
  \<open>f"{x:.1f}%"\<close> and \<open>f"${x:.2f}"\<close>, kept as the number they show.
\<close>

datatype cell = CInt int | CText string | CPercent real | CDollar real

text \<open>
  An outcome row. The eight columns that every row has are fields;
  \<open>extra_columns\<close> is the rest of the dictionary, in insertion order: the columns
  \<open>supporting_keyword_j...\<close> and \<open>original_...\<close>. The column
  \<open>original_top_10_urls_count\<close> is a cell because the loop over the input row can
  overwrite it (an input column named \<open>top_10_urls_count\<close> is stored under that name).
\<close>

record result_row =
  row_number :: nat
  seed_keyword :: string
  processing_time_seconds :: real
  original_top_10_urls_count :: cell
  keywords_from_top_3_urls_count :: nat
  supporting_keywords_found :: nat
  research_successful :: bool
  error_message :: "string option"
  extra_columns :: "(string \<times> cell) list"

definition fixed_columns :: "string list" where
  "fixed_columns =
     [''row_number'', ''seed_keyword'', ''processing_time_seconds'',
      ''original_top_10_urls_count'', ''keywords_from_top_3_urls_count'',
      ''supporting_keywords_found'', ''research_successful'', ''error_message'']"

text \<open>The keys of the dictionary: \<open>key in result_row\<close> is membership in this list.\<close>

definition row_keys :: "result_row \<Rightarrow> string list" where
  "row_keys row = fixed_columns @ map fst (extra_columns row)"

text \<open>\<open>str(n)\<close> for a natural number, as an f-string writes it.\<close>

fun str_nat :: "nat \<Rightarrow> string" where
  "str_nat n =
     (if n < 10 then [char_of (48 + n)]
      else str_nat (n div 10) @ [char_of (48 + n mod 10)])"

text \<open>
  The loop over \<open>enumerate(supporting_keywords, 1)\<close>, which adds four columns for
  every supporting keyword.
\<close>

definition add_supporting_columns ::
  "supporting_keyword list \<Rightarrow> (string \<times> cell) list \<Rightarrow> (string \<times> cell) list" where
  "add_supporting_columns supporting columns =
     foldl (\<lambda>columns (j, sk).
              let name = ''supporting_keyword_'' @ str_nat j;
                  columns = AList.update name (CText (sk_keyword sk)) columns;
                  columns = AList.update (name @ ''_overlap'')
                              (CPercent (overlap_percentage sk)) columns;
                  columns = AList.update (name @ ''_volume'')
                              (CInt (or_zero (sk_search_volume sk))) columns
              in AList.update (name @ ''_cpc'') (CDollar (or_zero (sk_cpc sk))) columns)
       columns (List.enumerate 1 supporting)"

text \<open>
  \<open>result_row[f'original_{key}'] = value\<close>. Of the eight fixed columns only
  \<open>original_top_10_urls_count\<close> has a name that starts with \<open>original_\<close>.
\<close>

definition set_original_column :: "string \<Rightarrow> string \<Rightarrow> result_row \<Rightarrow> result_row" where
  "set_original_column key v row =
     (if ''original_'' @ key = ''original_top_10_urls_count''
      then row\<lparr>original_top_10_urls_count := CText v\<rparr>
      else row\<lparr>extra_columns := AList.update (''original_'' @ key) (CText v) (extra_columns row)\<rparr>)"

text \<open>The loop over \<open>original_row.items()\<close>, which ends both branches.\<close>

definition add_original_columns :: "(string \<times> string) list \<Rightarrow> result_row \<Rightarrow> result_row" where
  "add_original_columns original row =
     foldl (\<lambda>row (key, v). if key \<in> set (row_keys row) then row
                             else set_original_column key v row)
       row original"

text \<open>\<open>len(d.get(key, []))\<close> and \<open>d.get(key, [])\<close> on a key that may be absent.\<close>

definition len_or_empty :: "'a list option \<Rightarrow> nat" where
  "len_or_empty v = (case v of None \<Rightarrow> 0 | Some xs \<Rightarrow> length xs)"

definition list_or_empty :: "'a list option \<Rightarrow> 'a list" where
  "list_or_empty v = (case v of None \<Rightarrow> [] | Some xs \<Rightarrow> xs)"

text \<open>The row of the \<open>try\<close> branch of \<open>process_single_keyword_optimized\<close>.\<close>

definition success_row :: "environment \<Rightarrow> kw_data \<Rightarrow> research_result \<Rightarrow> result_row" where
  "success_row env kw research_results =
     add_original_columns (original_row kw)
       \<lparr>row_number = kw_row_number kw,
        seed_keyword = kw_keyword kw,
        processing_time_seconds = py_round (row_time_1 env - row_time_2 env) 2,
        original_top_10_urls_count =
          CInt (int (len_or_empty (original_top_10_urls research_results))),
        keywords_from_top_3_urls_count =
          len_or_empty (keywords_from_top_3_urls research_results),
        supporting_keywords_found = or_zero (total_supporting_keywords_found research_results),
        research_successful = True,
        error_message = None,
        extra_columns =
          add_supporting_columns (list_or_empty (supporting_keywords research_results)) []\<rparr>"

text \<open>
  The error row that the \<open>except\<close> branch of \<open>process_keywords_parallel\<close> appends. The
  \<open>except\<close> branch of \<open>process_single_keyword_optimized\<close> builds the same eight columns
  and then adds the columns of the input row.
\<close>

definition error_row :: "kw_data \<Rightarrow> string \<Rightarrow> result_row" where
  "error_row kw e =
     \<lparr>row_number = kw_row_number kw,
      seed_keyword = kw_keyword kw,
      processing_time_seconds = 0,
      original_top_10_urls_count = CInt 0,
      keywords_from_top_3_urls_count = 0,
      supporting_keywords_found = 0,
      research_successful = False,
      error_message = Some e,
      extra_columns = []\<rparr>"

definition worker_error_row :: "kw_data \<Rightarrow> string \<Rightarrow> result_row" where
  "worker_error_row kw e = add_original_columns (original_row kw) (error_row kw e)"

text \<open>
  \<open>process_single_keyword_optimized\<close>. A cached research result is a dictionary with
  at least the key \<open>input_keyword\<close>, so the test \<open>if cached_result\<close> succeeds exactly
  when the lookup returned an entry. A research result is made of strings, numbers,
  \<open>None\<close>, lists and dictionaries with string keys, which \<open>json.dumps\<close> and
  \<open>json.loads\<close> give back unchanged (\<open>Some\<close>).
\<close>

definition process_single_keyword_optimized ::
  "batch_config \<Rightarrow> environment \<Rightarrow> research_result researcher_state \<Rightarrow> kw_data
     \<Rightarrow> result_row \<times> research_result researcher_state" where
  "process_single_keyword_optimized cfg env s kw =
     (let cache_key = get_cache_key cfg (kw_keyword kw) ''full_research'';
          (cached_result, s) = get_from_cache env s cache_key
      in case cached_result of
           Some research_results \<Rightarrow> (success_row env kw research_results, s)
         | None \<Rightarrow>
             (case research_keyword (service cfg) (kw_keyword kw) of
                Inl e \<Rightarrow> (worker_error_row kw e, s)
              | Inr research_results \<Rightarrow>
                  (success_row env kw research_results,
                   save_to_cache Some cfg env s cache_key research_results)))"

subsection \<open>The batch coordinator\<close>

text \<open>\<open>keywords[:max_keywords]\<close>, applied when \<open>max_keywords\<close> is neither \<open>None\<close> nor 0.\<close>

definition truncate_keywords :: "'a list \<Rightarrow> int option \<Rightarrow> 'a list" where
  "truncate_keywords keywords max_keywords =
     (case max_keywords of
        None \<Rightarrow> keywords
      | Some n \<Rightarrow>
          if n = 0 then keywords
          else if 0 < n then take (nat n) keywords
          else take (length keywords - nat (- n)) keywords)"

text \<open>The body of the collection loop: the result of a future, or the error row.\<close>

definition collect_result :: "string + result_row \<Rightarrow> kw_data \<Rightarrow> result_row" where
  "collect_result outcome kw =
     (case outcome of Inr result \<Rightarrow> result | Inl e \<Rightarrow> error_row kw e)"

text \<open>
  What the thread that runs the \<open>i\<close>-th submitted call meets: its environment, the
  shared state at the moment it looks the cache up, and an exception, if any, that is
  raised in the call outside the \<open>try\<close> block of \<open>process_single_keyword_optimized\<close>
  and so reaches the future.
\<close>

record task =
  task_env :: environment
  task_state :: "research_result researcher_state"
  task_raised :: "string option"

text \<open>\<open>future.result()\<close>: the row the submitted call returned, or the exception re-raised.\<close>

definition future_result :: "batch_config \<Rightarrow> task \<Rightarrow> kw_data \<Rightarrow> string + result_row" where
  "future_result cfg t kw =
     (case task_raised t of
        Some e \<Rightarrow> Inl e
      | None \<Rightarrow>
          Inr (fst (process_single_keyword_optimized cfg (task_env t) (task_state t) kw)))"

text \<open>
  \<open>process_keywords_parallel\<close>. One future is submitted for every keyword of the
  truncated list; \<open>completion\<close> is the order in which \<open>as_completed\<close> yields the
  futures (by index of submission), each future once. The progress report inside the
  loop only logs and is left out.
\<close>

definition process_keywords_parallel ::
  "batch_config \<Rightarrow> (nat \<Rightarrow> task) \<Rightarrow> nat list \<Rightarrow> kw_data list \<Rightarrow> int option
     \<Rightarrow> result_row list" where
  "process_keywords_parallel cfg tasks completion keywords max_keywords =
     (let keywords = truncate_keywords keywords max_keywords
      in map (\<lambda>i. collect_result (future_result cfg (tasks i) (keywords ! i)) (keywords ! i))
           completion)"

section \<open>Example inputs\<close>

definition example_record ::
  "string \<Rightarrow> int \<Rightarrow> int option \<Rightarrow> real option \<Rightarrow> keyword_record" where
  "example_record k p v c =
     \<lparr>keyword = k, position = p, search_volume = v, cpc = c, competition = None\<rparr>"

text \<open>
  A service that knows the seed \<open>seed\<close> with two organic results and one candidate,
  \<open>k1\<close>, whose own results share one of the two URLs; for the keyword \<open>boom\<close> the
  call raises, and every other keyword has no data.
\<close>

definition example_service :: services where
  "example_service =
     \<lparr>get_serp_data = (\<lambda>kw.
        if kw = ''seed'' then
          Inr (Some [\<lparr>item_type = ''organic'', item_url = ''http://a.com/''\<rparr>,
                     \<lparr>item_type = ''paid'', item_url = ''http://x.com/''\<rparr>,
                     \<lparr>item_type = ''organic'', item_url = ''http://b.com''\<rparr>])
        else if kw = ''k1'' then
          Inr (Some [\<lparr>item_type = ''organic'', item_url = ''http://A.com''\<rparr>])
        else if kw = ''boom'' then Inl ''TypeError''
        else Inr None),
      get_ranked_keywords = (\<lambda>url.
        if url = ''http://a.com/'' then
          Inr [example_record ''k1'' 5 (Some 10) None, example_record ''k2'' 5 (Some 10) (Some 2)]
        else Inr [example_record ''k1'' 2 (Some 10) (Some 1)])\<rparr>"

definition example_config :: batch_config where
  "example_config =
     \<lparr>username = ''user'', cache_ttl_hours = 24, md5_hexdigest = (\<lambda>s. s),
      service = example_service\<rparr>"

text \<open>
  An environment at time \<open>t\<close> in which the database works and the two clock readings
  taken for the outcome row are 20 ms apart.
\<close>

definition example_environment :: "real \<Rightarrow> environment" where
  "example_environment t =
     \<lparr>db_read_ok = True, db_write_ok = True, read_now = t, write_now = t,
      limiter_now = t, limiter_after = t, row_time_1 = t, row_time_2 = t + 2 / 100\<rparr>"

definition empty_state :: "'v researcher_state" where
  "empty_state = \<lparr>cache = Map.empty, cache_hits = 0, api_calls = 0, last_request_time = 0\<rparr>"

definition example_task :: "string option \<Rightarrow> task" where
  "example_task raised =
     \<lparr>task_env = example_environment 100, task_state = empty_state, task_raised = raised\<rparr>"

definition example_kw :: "nat \<Rightarrow> string \<Rightarrow> kw_data" where
  "example_kw n k = \<lparr>kw_row_number = n, kw_keyword = k, original_row = [(''keyword'', k)]\<rparr>"

definition example_tasks :: "nat \<Rightarrow> task" where
  "example_tasks i = example_task (if i = 2 then Some ''KeyError'' else None)"

definition example_keywords :: "kw_data list" where
  "example_keywords = [example_kw 1 ''seed'', example_kw 2 ''boom'', example_kw 3 ''k1'']"

text \<open>
  Three calls of the rate limiter: thread 1 at time 10, thread 2 at 10.03, which sleeps
  until 10.1, and thread 1 again at 10.5.
\<close>

definition example_calls :: "(nat \<times> environment) list" where
  "example_calls =
     [(1, (example_environment 0)\<lparr>limiter_now := 10, limiter_after := 10\<rparr>),
      (2, (example_environment 0)\<lparr>limiter_now := 1003 / 100, limiter_after := 101 / 10\<rparr>),
      (1, (example_environment 0)\<lparr>limiter_now := 105 / 10, limiter_after := 105 / 10\<rparr>)]"

section \<open>Properties\<close>

subsection \<open>Overlap scorer\<close>

lemma card_inter_le_left:
  "finite A \<Longrightarrow> card (A \<inter> B) \<le> card A"
  by (simp add: card_mono)

lemma overlap_ratio_bounds:
  assumes "finite A" and "A \<noteq> {}"
  shows "0 \<le> real (card (A \<inter> B)) / real (card A) * 100"
    and "real (card (A \<inter> B)) / real (card A) * 100 \<le> 100"
proof -
  have pos: "0 < real (card A)"
    using assms by (simp add: card_gt_0_iff)
  show "0 \<le> real (card (A \<inter> B)) / real (card A) * 100"
    by simp
  have "real (card (A \<inter> B)) \<le> real (card A)"
    using assms(1) by (simp add: card_inter_le_left)
  then have "real (card (A \<inter> B)) / real (card A) \<le> 1"
    using pos by (simp add: divide_le_eq_1)
  then have "real (card (A \<inter> B)) / real (card A) * 100 \<le> 1 * 100"
    by (rule mult_right_mono) simp
  then show "real (card (A \<inter> B)) / real (card A) * 100 \<le> 100"
    by (simp del: times_divide_eq_left)
qed

lemma calculate_url_overlap_nonempty:
  assumes "urls1 \<noteq> []" and "urls2 \<noteq> []"
  shows "calculate_url_overlap urls1 urls2 =
           real (card (normalize_url ` set urls1 \<inter> normalize_url ` set urls2))
             / real (card (normalize_url ` set urls1)) * 100"
proof -
  have "0 < card (normalize_url ` set urls1)"
    using assms(1) by (simp add: card_gt_0_iff)
  then show ?thesis
    using assms by (simp add: calculate_url_overlap_def Let_def)
qed

text \<open>
  Claim C1. For every pair of URL lists, \<open>calculate_url_overlap\<close> equals the reference
  definition (0 when either list is empty, otherwise the size of the intersection of the
  normalized sets over the size of the normalized original set, times 100); the result
  lies between 0 and 100, and it is 100 when both arguments are the same non-empty list.
\<close>

theorem calculate_url_overlap_reference:
  "calculate_url_overlap original candidate = overlap_reference original candidate
   \<and> 0 \<le> calculate_url_overlap original candidate
   \<and> calculate_url_overlap original candidate \<le> 100
   \<and> (original \<noteq> [] \<longrightarrow> calculate_url_overlap original original = 100)"
proof -
  have eq: "calculate_url_overlap original candidate = overlap_reference original candidate"
  proof (cases "original = [] \<or> candidate = []")
    case True
    then show ?thesis
      by (auto simp: calculate_url_overlap_def overlap_reference_def)
  next
    case False
    then show ?thesis
      by (simp add: calculate_url_overlap_nonempty overlap_reference_def)
  qed
  have bounds: "0 \<le> calculate_url_overlap original candidate
                \<and> calculate_url_overlap original candidate \<le> 100"
  proof (cases "original = [] \<or> candidate = []")
    case True
    then show ?thesis
      by (auto simp: calculate_url_overlap_def)
  next
    case False
    then have ne: "normalize_url ` set original \<noteq> {}" by simp
    have fin: "finite (normalize_url ` set original)" by simp
    show ?thesis
      using False overlap_ratio_bounds [OF fin ne]
      by (simp add: calculate_url_overlap_nonempty)
  qed
  have same: "original \<noteq> [] \<longrightarrow> calculate_url_overlap original original = 100"
  proof
    assume ne: "original \<noteq> []"
    then have "0 < card (normalize_url ` set original)"
      by (simp add: card_gt_0_iff)
    then show "calculate_url_overlap original original = 100"
      using ne by (simp add: calculate_url_overlap_nonempty)
  qed
  from eq bounds same show ?thesis by blast
qed

theorem calculate_url_overlap_reference_witness:
  "[''http://a.com/'', ''http://b.com''] \<noteq> []
   \<and> calculate_url_overlap [''http://a.com/'', ''http://b.com'']
        [''http://a.com/'', ''http://b.com''] = 100
   \<and> calculate_url_overlap [''http://a.com/'', ''http://b.com''] [''HTTP://A.com?x=1'']
        = overlap_reference [''http://a.com/'', ''http://b.com''] [''HTTP://A.com?x=1'']"
  using calculate_url_overlap_reference
    [of "[''http://a.com/'', ''http://b.com'']" "[''http://a.com/'', ''http://b.com'']"]
    calculate_url_overlap_reference
    [of "[''http://a.com/'', ''http://b.com'']" "[''HTTP://A.com?x=1'']"]
  by simp

subsection \<open>URL normalizer\<close>

text \<open>
  Claim C5. The normalizer is claimed idempotent. The source strips trailing slashes
  before it cuts the query string and the fragment, so a slash that ends the part before
  \<open>?\<close> or \<open>#\<close> survives the first pass and is removed by the second: at
  \<open>http://example.com/?q=1\<close> the first pass gives \<open>http://example.com/\<close> and the
  second gives \<open>http://example.com\<close>.
\<close>

theorem normalize_url_twice_differs:
  "normalize_url ''http://example.com/?q=1'' = ''http://example.com/''
   \<and> normalize_url (normalize_url ''http://example.com/?q=1'') = ''http://example.com''
   \<and> normalize_url (normalize_url ''http://example.com/?q=1'')
        \<noteq> normalize_url ''http://example.com/?q=1''"
  by code_simp

subsection \<open>Deduplication\<close>

lemma find_append_cases:
  "List.find P (xs @ ys) = (case List.find P xs of None \<Rightarrow> List.find P ys | Some x \<Rightarrow> Some x)"
  by (induction xs) auto

lemma find_Some_member:
  "List.find P xs = Some x \<Longrightarrow> x \<in> set xs \<and> P x"
  by (induction xs) (auto split: if_splits)

lemma exists_lowest_position:
  "xs \<noteq> [] \<Longrightarrow> \<exists>x \<in> set xs. \<forall>y \<in> set xs. position x \<le> (position y :: int)"
proof (induction xs)
  case Nil
  then show ?case by simp
next
  case (Cons a xs)
  show ?case
  proof (cases "xs = []")
    case True
    then show ?thesis by simp
  next
    case False
    with Cons.IH obtain x where x: "x \<in> set xs" "\<forall>y \<in> set xs. position x \<le> position y"
      by blast
    show ?thesis
    proof (cases "position a \<le> position x")
      case True
      with x have "\<forall>y \<in> set (a # xs). position a \<le> position y" by auto
      then show ?thesis by auto
    next
      case False
      with x have "\<forall>y \<in> set (a # xs). position x \<le> position y" by auto
      with x(1) show ?thesis by auto
    qed
  qed
qed

lemma lowest_position_first_seen_snoc_other:
  "keyword r \<noteq> k \<Longrightarrow>
     lowest_position_first_seen (recs @ [r]) k = lowest_position_first_seen recs k"
  by (simp add: lowest_position_first_seen_def)

lemma lowest_position_first_seen_snoc_same:
  fixes r :: keyword_record
  shows "lowest_position_first_seen (recs @ [r]) (keyword r) =
     (case lowest_position_first_seen recs (keyword r) of
        None \<Rightarrow> Some r
      | Some old \<Rightarrow> if position r < position old then Some r else Some old)"
proof -
  define same where "same = filter (\<lambda>x. keyword x = keyword r) recs"
  define P where "P = (\<lambda>x :: keyword_record. \<forall>r' \<in> set same. position x \<le> position r')"
  define P' where
    "P' = (\<lambda>x :: keyword_record. \<forall>r' \<in> set (same @ [r]). position x \<le> position r')"
  have lhs: "lowest_position_first_seen (recs @ [r]) (keyword r) = List.find P' (same @ [r])"
    by (simp add: lowest_position_first_seen_def same_def P'_def)
  have rhs: "lowest_position_first_seen recs (keyword r) = List.find P same"
    by (simp add: lowest_position_first_seen_def same_def P_def)
  show ?thesis
  proof (cases "List.find P same")
    case None
    have "same = []"
    proof (rule ccontr)
      assume "same \<noteq> []"
      from exists_lowest_position [OF this] have "\<exists>x. x \<in> set same \<and> P x"
        by (auto simp: P_def)
      with None show False by (simp add: find_None_iff)
    qed
    then have "List.find P' (same @ [r]) = Some r"
      by (simp add: P'_def)
    with None lhs rhs show ?thesis by simp
  next
    case (Some old)
    then have old: "old \<in> set same" "P old"
      by (auto dest: find_Some_member)
    show ?thesis
    proof (cases "position r < position old")
      case True
      have "\<not> P' x" if "x \<in> set same" for x
      proof
        assume "P' x"
        then have "position x \<le> position r" by (simp add: P'_def)
        moreover have "position old \<le> position x" using old(2) that by (simp add: P_def)
        ultimately show False using True by simp
      qed
      then have none: "List.find P' same = None"
        by (simp add: find_None_iff)
      have "P' r"
        unfolding P'_def
      proof
        fix r' assume "r' \<in> set (same @ [r])"
        then consider "r' \<in> set same" | "r' = r" by auto
        then show "position r \<le> position r'"
        proof cases
          case 1
          then have "position old \<le> position r'" using old(2) by (simp add: P_def)
          with True show ?thesis by simp
        next
          case 2
          then show ?thesis by simp
        qed
      qed
      with none have "List.find P' (same @ [r]) = Some r"
        by (simp add: find_append_cases)
      with Some True lhs rhs show ?thesis by simp
    next
      case False
      have "P' x = P x" if "x \<in> set same" for x
      proof
        assume "P' x" then show "P x" by (simp add: P'_def P_def)
      next
        assume px: "P x"
        then have "position x \<le> position old" using old(1) by (simp add: P_def)
        with False have "position x \<le> position r" by simp
        with px show "P' x" by (simp add: P'_def P_def)
      qed
      then have "List.find P' same = List.find P same"
        by (intro find_cong) simp_all
      with Some have "List.find P' (same @ [r]) = Some old"
        by (simp add: find_append_cases)
      with Some False lhs rhs show ?thesis by simp
    qed
  qed
qed

lemma map_of_unique_keywords_step:
  "map_of (unique_keywords_step uk r) k =
     (if k = keyword r then
        (case map_of uk (keyword r) of
           None \<Rightarrow> Some r
         | Some old \<Rightarrow> if position r < position old then Some r else Some old)
      else map_of uk k)"
  by (auto simp: unique_keywords_step_def Let_def update_conv' split: option.splits)

lemma deduplicate_snoc:
  "deduplicate (recs @ [r]) = unique_keywords_step (deduplicate recs) r"
  by (simp add: deduplicate_def)

lemma map_of_deduplicate:
  "map_of (deduplicate recs) k = lowest_position_first_seen recs k"
proof (induction recs arbitrary: k rule: rev_induct)
  case Nil
  then show ?case by (simp add: deduplicate_def lowest_position_first_seen_def)
next
  case (snoc r recs)
  show ?case
  proof (cases "k = keyword r")
    case True
    then show ?thesis
      by (simp add: deduplicate_snoc map_of_unique_keywords_step
          lowest_position_first_seen_snoc_same snoc.IH)
  next
    case False
    then have "keyword r \<noteq> k" by simp
    then show ?thesis
      by (simp add: deduplicate_snoc map_of_unique_keywords_step
          lowest_position_first_seen_snoc_other snoc.IH)
  qed
qed

lemma distinct_unique_keywords_step:
  "distinct (map fst uk) \<Longrightarrow> distinct (map fst (unique_keywords_step uk r))"
  by (simp add: unique_keywords_step_def Let_def distinct_update split: option.splits)

lemma distinct_deduplicate: "distinct (map fst (deduplicate recs))"
  by (induction recs rule: rev_induct)
    (simp_all add: deduplicate_def distinct_unique_keywords_step)

lemma keys_unique_keywords_step:
  "fst ` set (unique_keywords_step uk r) = insert (keyword r) (fst ` set uk)"
proof (cases "map_of uk (keyword r)")
  case None
  then show ?thesis
    by (simp add: unique_keywords_step_def dom_update)
next
  case (Some old)
  then have "(keyword r, old) \<in> set uk"
    by (rule map_of_SomeD)
  then have "keyword r \<in> fst ` set uk"
    by force
  with Some show ?thesis
    by (auto simp: unique_keywords_step_def dom_update)
qed

lemma keys_deduplicate: "fst ` set (deduplicate recs) = keyword ` set recs"
  by (induction recs rule: rev_induct)
    (auto simp: deduplicate_snoc keys_unique_keywords_step, simp_all add: deduplicate_def)

lemma deduplicate_lowest:
  assumes "map_of (deduplicate recs) k = Some r"
  shows "r \<in> set recs \<and> keyword r = k
         \<and> (\<forall>r' \<in> set recs. keyword r' = k \<longrightarrow> position r \<le> position r')"
proof -
  from assms have "lowest_position_first_seen recs k = Some r"
    by (simp add: map_of_deduplicate)
  then show ?thesis
    by (auto simp: lowest_position_first_seen_def Let_def dest!: find_Some_member)
qed

lemma deduplicate_first_seen:
  "map_of (deduplicate recs) k = Some r \<Longrightarrow>
     \<exists>before after. recs = before @ r # after
        \<and> (\<forall>r' \<in> set before. keyword r' = k \<longrightarrow> position r < position r')"
proof (induction recs arbitrary: r rule: rev_induct)
  case Nil
  then show ?case by (simp add: deduplicate_def)
next
  case (snoc x recs)
  have step: "map_of (unique_keywords_step (deduplicate recs) x) k = Some r"
    using snoc.prems by (simp add: deduplicate_snoc)
  show ?case
  proof (cases "k = keyword x")
    case False
    with step have "map_of (deduplicate recs) k = Some r"
      by (simp add: map_of_unique_keywords_step)
    from snoc.IH [OF this] obtain before after where
      "recs = before @ r # after"
      "\<forall>r' \<in> set before. keyword r' = k \<longrightarrow> position r < position r'"
      by blast
    then have "recs @ [x] = before @ r # (after @ [x])
               \<and> (\<forall>r' \<in> set before. keyword r' = k \<longrightarrow> position r < position r')"
      by simp
    then show ?thesis by blast
  next
    case same: True
    show ?thesis
    proof (cases "map_of (deduplicate recs) k")
      case None
      with step same have rx: "r = x"
        by (simp add: map_of_unique_keywords_step)
      from None have "k \<notin> fst ` set (deduplicate recs)"
        by (simp add: map_of_eq_None_iff)
      then have "k \<notin> keyword ` set recs"
        by (simp add: keys_deduplicate)
      then have "\<forall>r' \<in> set recs. keyword r' = k \<longrightarrow> position r < position r'"
        by auto
      with rx have "recs @ [x] = recs @ r # []
                    \<and> (\<forall>r' \<in> set recs. keyword r' = k \<longrightarrow> position r < position r')"
        by simp
      then show ?thesis by blast
    next
      case (Some old)
      show ?thesis
      proof (cases "position x < position old")
        case True
        with step same Some have rx: "r = x"
          by (simp add: map_of_unique_keywords_step)
        from deduplicate_lowest [OF Some]
        have "\<forall>r' \<in> set recs. keyword r' = k \<longrightarrow> position old \<le> position r'"
          by simp
        with True rx have "\<forall>r' \<in> set recs. keyword r' = k \<longrightarrow> position r < position r'"
          by fastforce
        with rx have "recs @ [x] = recs @ r # []
                      \<and> (\<forall>r' \<in> set recs. keyword r' = k \<longrightarrow> position r < position r')"
          by simp
        then show ?thesis by blast
      next
        case False
        with step same Some have "r = old"
          by (simp add: map_of_unique_keywords_step)
        with Some have "map_of (deduplicate recs) k = Some r" by simp
        from snoc.IH [OF this] obtain before after where
          "recs = before @ r # after"
          "\<forall>r' \<in> set before. keyword r' = k \<longrightarrow> position r < position r'"
          by blast
        then have "recs @ [x] = before @ r # (after @ [x])
                   \<and> (\<forall>r' \<in> set before. keyword r' = k \<longrightarrow> position r < position r')"
          by simp
        then show ?thesis by blast
      qed
    qed
  qed
qed

text \<open>
  Claim C6. Deduplication by keyword text keeps, for each keyword, the record with the
  lowest position among the records with that keyword text, and among several records
  with that lowest position the one seen first: the kept record equals the reference
  \<open>lowest_position_first_seen\<close>, every keyword of the input is kept exactly once, and
  every record with the same keyword that was seen before the kept one has a strictly
  higher position.
\<close>

theorem deduplicate_keeps_lowest_position:
  "map_of (deduplicate recs) k = lowest_position_first_seen recs k
   \<and> distinct (map fst (deduplicate recs))
   \<and> fst ` set (deduplicate recs) = keyword ` set recs
   \<and> (\<forall>r. map_of (deduplicate recs) k = Some r \<longrightarrow>
         keyword r = k
         \<and> (\<forall>r' \<in> set recs. keyword r' = k \<longrightarrow> position r \<le> position r')
         \<and> (\<exists>before after. recs = before @ r # after
               \<and> (\<forall>r' \<in> set before. keyword r' = k \<longrightarrow> position r < position r')))"
  using deduplicate_lowest [of recs k] deduplicate_first_seen [of recs k]
  by (simp add: map_of_deduplicate [symmetric] distinct_deduplicate keys_deduplicate)

theorem deduplicate_keeps_lowest_position_witness:
  "map_of (deduplicate [example_record ''x'' 5 None None, example_record ''x'' 2 None None,
                        example_record ''x'' 2 (Some 7) None]) ''x''
     = Some (example_record ''x'' 2 None None)
   \<and> position (example_record ''x'' 2 None None) \<le> position (example_record ''x'' 5 None None)"
proof -
  let ?recs = "[example_record ''x'' 5 None None, example_record ''x'' 2 None None,
                example_record ''x'' 2 (Some 7) None]"
  have kept: "map_of (deduplicate ?recs) ''x'' = Some (example_record ''x'' 2 None None)"
    by code_simp
  have "example_record ''x'' 5 None None \<in> set ?recs" by simp
  moreover have "keyword (example_record ''x'' 5 None None) = ''x''"
    by (simp add: example_record_def)
  ultimately show ?thesis
    using deduplicate_keeps_lowest_position [of ?recs "''x''"] kept by blast
qed

subsection \<open>Sorting\<close>

lemma volume_cpc_key_le_iff:
  "volume_cpc_key a \<le> volume_cpc_key b \<longleftrightarrow>
     or_zero (search_volume b) < or_zero (search_volume a)
     \<or> (or_zero (search_volume a) = or_zero (search_volume b)
        \<and> or_zero (cpc b) \<le> or_zero (cpc a))"
  by (auto simp: volume_cpc_key_def less_eq_prod_def)

text \<open>
  Claim C7. The candidate list is sorted by search volume descending, then by cpc
  descending, with \<open>None\<close> counted as 0; the sort permutes its input and is stable
  (records with equal sort keys keep their order); volumes \<open>[10,10,5]\<close> with cpcs
  \<open>[1,2,3]\<close> come out as \<open>[(10,2),(10,1),(5,3)]\<close>.
\<close>

theorem sort_keywords_volume_then_cpc:
  "sorted_wrt (\<lambda>a b. or_zero (search_volume b) < or_zero (search_volume a)
                 \<or> (or_zero (search_volume a) = or_zero (search_volume b)
                    \<and> or_zero (cpc b) \<le> or_zero (cpc a))) (sort_keywords xs)
   \<and> mset (sort_keywords xs) = mset xs
   \<and> filter (\<lambda>x. volume_cpc_key x = k) (sort_keywords xs) = filter (\<lambda>x. volume_cpc_key x = k) xs
   \<and> map (\<lambda>x. (search_volume x, cpc x))
        (sort_keywords [example_record ''a'' 1 (Some 10) (Some 1),
                        example_record ''b'' 1 (Some 10) (Some 2),
                        example_record ''c'' 1 (Some 5) (Some 3)])
      = [(Some 10, Some 2), (Some 10, Some 1), (Some 5, Some 3)]"
proof -
  have "sorted (map volume_cpc_key (sort_keywords xs))"
    by (simp add: sort_keywords_def)
  then have "sorted_wrt (\<lambda>a b. volume_cpc_key a \<le> volume_cpc_key b) (sort_keywords xs)"
    by (simp add: sorted_map)
  then have s: "sorted_wrt (\<lambda>a b. or_zero (search_volume b) < or_zero (search_volume a)
                 \<or> (or_zero (search_volume a) = or_zero (search_volume b)
                    \<and> or_zero (cpc b) \<le> or_zero (cpc a))) (sort_keywords xs)"
    by (simp add: volume_cpc_key_le_iff)
  have m: "mset (sort_keywords xs) = mset xs"
    by (simp add: sort_keywords_def)
  have st: "filter (\<lambda>x. volume_cpc_key x = k) (sort_keywords xs)
              = filter (\<lambda>x. volume_cpc_key x = k) xs"
    by (simp add: sort_keywords_def sort_key_stable)
  have ex: "map (\<lambda>x. (search_volume x, cpc x))
        (sort_keywords [example_record ''a'' 1 (Some 10) (Some 1),
                        example_record ''b'' 1 (Some 10) (Some 2),
                        example_record ''c'' 1 (Some 5) (Some 3)])
      = [(Some 10, Some 2), (Some 10, Some 1), (Some 5, Some 3)]"
    by code_simp
  from s m st ex show ?thesis by blast
qed

theorem sort_keywords_volume_then_cpc_witness:
  "sort_keywords [example_record ''a'' 1 None (Some 1), example_record ''b'' 2 (Some 0) (Some 1),
                  example_record ''c'' 3 (Some 4) None, example_record ''d'' 4 (Some 4) (Some 0)]
     = [example_record ''c'' 3 (Some 4) None, example_record ''d'' 4 (Some 4) (Some 0),
        example_record ''a'' 1 None (Some 1), example_record ''b'' 2 (Some 0) (Some 1)]
   \<and> filter (\<lambda>x. volume_cpc_key x = (0, - 1))
        (sort_keywords [example_record ''a'' 1 None (Some 1),
                        example_record ''b'' 2 (Some 0) (Some 1),
                        example_record ''c'' 3 (Some 4) None,
                        example_record ''d'' 4 (Some 4) (Some 0)])
     = [example_record ''a'' 1 None (Some 1), example_record ''b'' 2 (Some 0) (Some 1)]"
proof -
  let ?xs = "[example_record ''a'' 1 None (Some 1), example_record ''b'' 2 (Some 0) (Some 1),
              example_record ''c'' 3 (Some 4) None, example_record ''d'' 4 (Some 4) (Some 0)]"
  have run: "sort_keywords ?xs
     = [example_record ''c'' 3 (Some 4) None, example_record ''d'' 4 (Some 4) (Some 0),
        example_record ''a'' 1 None (Some 1), example_record ''b'' 2 (Some 0) (Some 1)]"
    by code_simp
  have "filter (\<lambda>x. volume_cpc_key x = (0, - 1)) ?xs
     = [example_record ''a'' 1 None (Some 1), example_record ''b'' 2 (Some 0) (Some 1)]"
    by (simp add: volume_cpc_key_def example_record_def or_zero_def)
  with sort_keywords_volume_then_cpc [of ?xs "(0, - 1)"] run show ?thesis
    by simp
qed

subsection \<open>Supporting-keyword selection\<close>

lemma round_half_even_ge:
  "of_int n \<le> x \<Longrightarrow> n \<le> round_half_even x"
proof -
  assume "of_int n \<le> x"
  then have "n \<le> \<lfloor>x\<rfloor>" by (simp add: le_floor_iff)
  then show ?thesis
    by (simp add: round_half_even_def Let_def)
qed

lemma py_round_1_ge_40:
  assumes "40 \<le> x"
  shows "40 \<le> py_round x 1"
proof -
  have "of_int 400 \<le> x * 10" using assms by simp
  then have "400 \<le> round_half_even (x * 10)" by (rule round_half_even_ge)
  then have "(400::real) \<le> of_int (round_half_even (x * 10))" by linarith
  then show ?thesis by (simp add: py_round_def)
qed

lemma select_supporting_invariant:
  "select_supporting svc original candidates supporting = Inr result
   \<Longrightarrow> length supporting \<le> 4
   \<Longrightarrow> \<forall>e \<in> set supporting. 40 \<le> overlap_percentage e
   \<Longrightarrow> length result \<le> 4 \<and> (\<forall>e \<in> set result. 40 \<le> overlap_percentage e)"
proof (induction candidates arbitrary: supporting)
  case Nil
  then show ?case by simp
next
  case (Cons kw_data rest)
  show ?case
  proof (cases "4 \<le> length supporting")
    case True
    with Cons.prems show ?thesis by simp
  next
    case False
    then have len: "length supporting < 4" by simp
    show ?thesis
    proof (cases "get_keyword_serp_urls svc (keyword kw_data)")
      case (Inl e)
      with Cons.prems(1) False show ?thesis by simp
    next
      case (Inr keyword_urls)
      define overlap where "overlap = calculate_url_overlap original keyword_urls"
      show ?thesis
      proof (cases "keyword_urls \<noteq> [] \<and> 40 \<le> overlap")
        case True
        define entry where "entry =
          \<lparr>sk_keyword = keyword kw_data, overlap_percentage = py_round overlap 1,
            sk_search_volume = search_volume kw_data, sk_cpc = cpc kw_data,
            sk_position = position kw_data, top_10_urls = take 10 keyword_urls\<rparr>"
        have run: "select_supporting svc original rest (supporting @ [entry]) = Inr result"
          using Cons.prems(1) False Inr True by (simp add: overlap_def entry_def Let_def)
        have "40 \<le> py_round overlap 1"
          using True by (intro py_round_1_ge_40) simp
        moreover have "overlap_percentage entry = py_round overlap 1"
          by (simp add: entry_def)
        ultimately have "40 \<le> overlap_percentage entry"
          by (simp only:)
        with Cons.prems(3) have all: "\<forall>e \<in> set (supporting @ [entry]). 40 \<le> overlap_percentage e"
          by simp
        have "length (supporting @ [entry]) \<le> 4" using len by simp
        from Cons.IH [OF run this all] show ?thesis .
      next
        case skip: False
        have run: "select_supporting svc original rest supporting = Inr result"
          using Cons.prems(1) False Inr skip by (auto simp: overlap_def Let_def split: if_splits)
        from Cons.IH [OF run Cons.prems(2) Cons.prems(3)] show ?thesis .
      qed
    qed
  qed
qed

text \<open>
  Claim C2. In every result of \<open>research_keyword\<close> that has a \<open>supporting_keywords\<close>
  list (every run that reaches stage 3, and the run that ends with no candidates), the
  list has at most 4 entries and every entry's \<open>overlap_percentage\<close> is at least 40.
\<close>

theorem research_keyword_supporting_bounds:
  assumes "research_keyword svc kw = Inr r"
    and "supporting_keywords r = Some supporting"
  shows "length supporting \<le> 4 \<and> (\<forall>e \<in> set supporting. 40 \<le> overlap_percentage e)"
proof (cases "get_keyword_serp_urls svc kw")
  case (Inl e)
  with assms(1) show ?thesis by (simp add: research_keyword_def)
next
  case (Inr original)
  show ?thesis
  proof (cases "original = []")
    case True
    with assms Inr show ?thesis by (auto simp: research_keyword_def)
  next
    case ne: False
    show ?thesis
    proof (cases "harvest_keywords svc (take 3 original) []")
      case (Inl e)
      with assms(1) Inr ne show ?thesis by (simp add: research_keyword_def)
    next
      case all: (Inr all_keywords)
      define sorted_keywords where
        "sorted_keywords = sort_keywords (map snd (deduplicate all_keywords))"
      show ?thesis
      proof (cases "length sorted_keywords = 0")
        case True
        with assms Inr ne all show ?thesis
          by (auto simp: research_keyword_def sorted_keywords_def Let_def)
      next
        case False
        show ?thesis
        proof (cases "select_supporting svc original sorted_keywords []")
          case (Inl e)
          with assms(1) Inr ne all False show ?thesis
            by (simp add: research_keyword_def sorted_keywords_def Let_def)
        next
          case sel: (Inr result)
          with assms Inr ne all False have "supporting = result"
            by (auto simp: research_keyword_def sorted_keywords_def Let_def)
          with select_supporting_invariant [OF sel] show ?thesis by simp
        qed
      qed
    qed
  qed
qed


theorem research_keyword_supporting_bounds_witness:
  "research_keyword example_service ''seed''
     = Inr \<lparr>error = None, input_keyword = ''seed'',
            original_top_10_urls = Some [''http://a.com/'', ''http://b.com''],
            keywords_from_top_3_urls =
              Some [example_record ''k2'' 5 (Some 10) (Some 2),
                    example_record ''k1'' 2 (Some 10) (Some 1)],
            supporting_keywords =
              Some [\<lparr>sk_keyword = ''k1'', overlap_percentage = 50,
                      sk_search_volume = Some 10, sk_cpc = Some 1, sk_position = 2,
                      top_10_urls = [''http://A.com'']\<rparr>],
            total_supporting_keywords_found = Some 1\<rparr>
   \<and> length [\<lparr>sk_keyword = ''k1'', overlap_percentage = 50,
                sk_search_volume = Some 10, sk_cpc = Some 1, sk_position = 2,
                top_10_urls = [''http://A.com'']\<rparr>] \<le> 4
   \<and> 40 \<le> overlap_percentage
             \<lparr>sk_keyword = ''k1'', overlap_percentage = 50,
              sk_search_volume = Some 10, sk_cpc = Some 1, sk_position = 2,
              top_10_urls = [''http://A.com'']\<rparr>"
proof -
  define entry where "entry =
    \<lparr>sk_keyword = ''k1'', overlap_percentage = 50, sk_search_volume = Some 10,
      sk_cpc = Some 1, sk_position = 2, top_10_urls = [''http://A.com'']\<rparr>"
  define r where "r =
    \<lparr>error = None, input_keyword = ''seed'',
      original_top_10_urls = Some [''http://a.com/'', ''http://b.com''],
      keywords_from_top_3_urls =
        Some [example_record ''k2'' 5 (Some 10) (Some 2),
              example_record ''k1'' 2 (Some 10) (Some 1)],
      supporting_keywords = Some [entry],
      total_supporting_keywords_found = Some 1\<rparr>"
  have run: "research_keyword example_service ''seed'' = Inr r"
    unfolding r_def entry_def by code_simp
  have sup: "supporting_keywords r = Some [entry]"
    by (simp add: r_def)
  from research_keyword_supporting_bounds [OF run sup]
  have "length [entry] \<le> 4 \<and> 40 \<le> overlap_percentage entry"
    by simp
  with run show ?thesis
    unfolding r_def entry_def by simp
qed

subsection \<open>Batch coordinator\<close>

text \<open>
  The loop over the input row changes nothing but \<open>original_top_10_urls_count\<close> and the
  computed columns.
\<close>

lemma add_original_columns_shape:
  "\<exists>c x. add_original_columns original row
           = row\<lparr>original_top_10_urls_count := c, extra_columns := x\<rparr>"
proof (induction original arbitrary: row)
  case Nil
  have "row = row\<lparr>original_top_10_urls_count := original_top_10_urls_count row,
                  extra_columns := extra_columns row\<rparr>"
    by simp
  then show ?case
    unfolding add_original_columns_def foldl_Nil by blast
next
  case (Cons column original)
  obtain key v where column: "column = (key, v)" by (cases column)
  define row' where
    "row' = (if key \<in> set (row_keys row) then row else set_original_column key v row)"
  have step: "add_original_columns (column # original) row = add_original_columns original row'"
    by (simp add: add_original_columns_def column row'_def)
  obtain c' x' where row': "row' = row\<lparr>original_top_10_urls_count := c', extra_columns := x'\<rparr>"
  proof (cases "key \<in> set (row_keys row) \<or> ''original_'' @ key \<noteq> ''original_top_10_urls_count''")
    case True
    then have "row' = row\<lparr>original_top_10_urls_count := original_top_10_urls_count row,
                          extra_columns := extra_columns row'\<rparr>"
      by (auto simp: row'_def set_original_column_def)
    then show ?thesis by (rule that)
  next
    case False
    then have "row' = row\<lparr>original_top_10_urls_count := CText v,
                          extra_columns := extra_columns row\<rparr>"
      by (auto simp: row'_def set_original_column_def)
    then show ?thesis by (rule that)
  qed
  from Cons.IH [of row'] obtain c x where
    "add_original_columns original row'
       = row'\<lparr>original_top_10_urls_count := c, extra_columns := x\<rparr>"
    by blast
  with row' have "add_original_columns original row'
                    = row\<lparr>original_top_10_urls_count := c, extra_columns := x\<rparr>"
    by simp
  with step show ?case by metis
qed

lemma add_original_columns_fields:
  "row_number (add_original_columns original row) = row_number row"
  "seed_keyword (add_original_columns original row) = seed_keyword row"
  "processing_time_seconds (add_original_columns original row) = processing_time_seconds row"
  "keywords_from_top_3_urls_count (add_original_columns original row)
     = keywords_from_top_3_urls_count row"
  "supporting_keywords_found (add_original_columns original row) = supporting_keywords_found row"
  "research_successful (add_original_columns original row) = research_successful row"
  "error_message (add_original_columns original row) = error_message row"
  using add_original_columns_shape [of original row] by auto

lemma worker_error_row_fields:
  "row_number (worker_error_row kw e) = kw_row_number kw"
  "seed_keyword (worker_error_row kw e) = kw_keyword kw"
  "processing_time_seconds (worker_error_row kw e) = 0"
  "\<not> research_successful (worker_error_row kw e)"
  "error_message (worker_error_row kw e) = Some e"
  by (simp_all add: worker_error_row_def add_original_columns_fields error_row_def)

lemma process_single_row_number:
  "row_number (fst (process_single_keyword_optimized cfg env s kw)) = kw_row_number kw"
  by (simp add: process_single_keyword_optimized_def Let_def success_row_def
      worker_error_row_fields add_original_columns_fields
      split: prod.splits option.splits sum.splits)

lemma process_single_exception:
  assumes "fst (get_from_cache env s (get_cache_key cfg (kw_keyword kw) ''full_research'')) = None"
    and "research_keyword (service cfg) (kw_keyword kw) = Inl e"
  shows "fst (process_single_keyword_optimized cfg env s kw) = worker_error_row kw e"
proof (cases "get_from_cache env s (get_cache_key cfg (kw_keyword kw) ''full_research'')")
  case (Pair cached_result s')
  with assms(1) have "cached_result = None" by simp
  with Pair assms(2) show ?thesis
    by (simp add: process_single_keyword_optimized_def Let_def)
qed

lemma collect_result_row_number:
  "row_number (collect_result (future_result cfg t kw) kw) = kw_row_number kw"
  by (simp add: collect_result_def future_result_def process_single_row_number error_row_def
      split: option.splits)

lemma mset_map_permutation:
  assumes "mset completion = mset [0..<length ks]"
  shows "mset (map (\<lambda>i. f (ks ! i)) completion) = mset (map f ks)"
proof -
  have "mset (map (\<lambda>i. f (ks ! i)) completion) = image_mset (\<lambda>i. f (ks ! i)) (mset completion)"
    by simp
  also have "\<dots> = image_mset (\<lambda>i. f (ks ! i)) (mset [0..<length ks])"
    using assms by simp
  also have "\<dots> = mset (map (\<lambda>i. f (ks ! i)) [0..<length ks])"
    by simp
  also have "map (\<lambda>i. f (ks ! i)) [0..<length ks] = map f ks"
    by (rule nth_equalityI) simp_all
  finally show ?thesis .
qed

text \<open>
  Claim C3. For a batch of K keywords (after the \<open>max_keywords\<close> truncation) and any
  order of completion, \<open>process_keywords_parallel\<close> returns exactly K rows, the row
  collected for a future carries the \<open>row_number\<close> of the keyword submitted with it
  (so the row numbers of the output are those of the input, up to order), and an
  exception becomes the failure row of that keyword: the error row of the coordinator
  when the exception reaches the future, and the error row of the worker, which also has
  the columns of the input row, when the research raises inside
  \<open>process_single_keyword_optimized\<close>. Both rows carry the keyword, its row number, the
  flag \<open>research_successful = False\<close> and the message of the exception.
\<close>

theorem process_keywords_parallel_outcomes:
  assumes "mset completion = mset [0..<length (truncate_keywords keywords max_keywords)]"
  shows
    "length (process_keywords_parallel cfg tasks completion keywords max_keywords)
       = length (truncate_keywords keywords max_keywords)
     \<and> map row_number (process_keywords_parallel cfg tasks completion keywords max_keywords)
         = map (\<lambda>i. kw_row_number (truncate_keywords keywords max_keywords ! i)) completion
     \<and> mset (map row_number (process_keywords_parallel cfg tasks completion keywords max_keywords))
         = mset (map kw_row_number (truncate_keywords keywords max_keywords))
     \<and> (\<forall>j < length completion. \<forall>e.
           task_raised (tasks (completion ! j)) = Some e
           \<longrightarrow> process_keywords_parallel cfg tasks completion keywords max_keywords ! j
                 = error_row (truncate_keywords keywords max_keywords ! (completion ! j)) e)
     \<and> (\<forall>j < length completion. \<forall>e.
           task_raised (tasks (completion ! j)) = None
           \<and> fst (get_from_cache (task_env (tasks (completion ! j)))
                    (task_state (tasks (completion ! j)))
                    (get_cache_key cfg
                       (kw_keyword (truncate_keywords keywords max_keywords ! (completion ! j)))
                       ''full_research'')) = None
           \<and> research_keyword (service cfg)
                (kw_keyword (truncate_keywords keywords max_keywords ! (completion ! j))) = Inl e
           \<longrightarrow> process_keywords_parallel cfg tasks completion keywords max_keywords ! j
                 = worker_error_row (truncate_keywords keywords max_keywords ! (completion ! j)) e)
     \<and> (\<forall>kw e. row_number (worker_error_row kw e) = kw_row_number kw
           \<and> seed_keyword (worker_error_row kw e) = kw_keyword kw
           \<and> \<not> research_successful (worker_error_row kw e)
           \<and> error_message (worker_error_row kw e) = Some e
           \<and> row_number (error_row kw e) = kw_row_number kw
           \<and> seed_keyword (error_row kw e) = kw_keyword kw
           \<and> \<not> research_successful (error_row kw e)
           \<and> error_message (error_row kw e) = Some e)"
proof -
  define ks where "ks = truncate_keywords keywords max_keywords"
  define res where "res = process_keywords_parallel cfg tasks completion keywords max_keywords"
  have res: "res = map (\<lambda>i. collect_result (future_result cfg (tasks i) (ks ! i)) (ks ! i)) completion"
    by (simp add: res_def ks_def process_keywords_parallel_def Let_def)
  have "length completion = length ks"
    using assms mset_eq_length [of completion "[0..<length ks]"] by (simp add: ks_def)
  then have len: "length res = length ks"
    by (simp add: res)
  have rows: "map row_number res = map (\<lambda>i. kw_row_number (ks ! i)) completion"
    by (simp add: res collect_result_row_number)
  have "mset (map (\<lambda>i. kw_row_number (ks ! i)) completion) = mset (map kw_row_number ks)"
    using assms by (intro mset_map_permutation) (simp add: ks_def)
  with rows have perm: "mset (map row_number res) = mset (map kw_row_number ks)"
    by simp
  have nth: "res ! j = collect_result (future_result cfg (tasks (completion ! j))
                          (ks ! (completion ! j))) (ks ! (completion ! j))"
    if "j < length completion" for j
    using that by (simp add: res)
  have raised: "\<forall>j < length completion. \<forall>e.
      task_raised (tasks (completion ! j)) = Some e
      \<longrightarrow> res ! j = error_row (ks ! (completion ! j)) e"
    by (simp add: nth collect_result_def future_result_def)
  have worker: "\<forall>j < length completion. \<forall>e.
      task_raised (tasks (completion ! j)) = None
      \<and> fst (get_from_cache (task_env (tasks (completion ! j)))
               (task_state (tasks (completion ! j)))
               (get_cache_key cfg (kw_keyword (ks ! (completion ! j))) ''full_research'')) = None
      \<and> research_keyword (service cfg) (kw_keyword (ks ! (completion ! j))) = Inl e
      \<longrightarrow> res ! j = worker_error_row (ks ! (completion ! j)) e"
    by (simp add: nth collect_result_def future_result_def process_single_exception)
  have fields: "\<forall>kw e. row_number (worker_error_row kw e) = kw_row_number kw
           \<and> seed_keyword (worker_error_row kw e) = kw_keyword kw
           \<and> \<not> research_successful (worker_error_row kw e)
           \<and> error_message (worker_error_row kw e) = Some e
           \<and> row_number (error_row kw e) = kw_row_number kw
           \<and> seed_keyword (error_row kw e) = kw_keyword kw
           \<and> \<not> research_successful (error_row kw e)
           \<and> error_message (error_row kw e) = Some e"
    by (simp add: worker_error_row_fields error_row_def)
  from len rows perm raised worker fields show ?thesis
    unfolding ks_def res_def by blast
qed

theorem process_keywords_parallel_outcomes_witness:
  "mset [2, 0, 1] = mset [0..<length (truncate_keywords example_keywords None)]
   \<and> map row_number (process_keywords_parallel example_config example_tasks [2, 0, 1]
                        example_keywords None) = [3, 1, 2]
   \<and> map research_successful (process_keywords_parallel example_config example_tasks [2, 0, 1]
                        example_keywords None) = [False, True, False]
   \<and> process_keywords_parallel example_config example_tasks [2, 0, 1] example_keywords None ! 0
       = error_row (example_kw 3 ''k1'') ''KeyError''
   \<and> process_keywords_parallel example_config example_tasks [2, 0, 1] example_keywords None ! 2
       = worker_error_row (example_kw 2 ''boom'') ''TypeError''"
proof -
  have perm: "mset [2, 0, 1] = mset [0..<length (truncate_keywords example_keywords None)]"
    by code_simp
  have ok: "map research_successful (process_keywords_parallel example_config example_tasks
              [2, 0, 1] example_keywords None) = [False, True, False]"
    by code_simp
  have rows: "map (\<lambda>i. kw_row_number (truncate_keywords example_keywords None ! i)) [2, 0, 1]
                = [3, 1, 2]"
    by code_simp
  have raised0: "task_raised (example_tasks ([2, 0, 1] ! 0)) = Some ''KeyError''"
    by code_simp
  have raised: "task_raised (example_tasks ([2, 0, 1] ! 2)) = None"
    by code_simp
  have miss: "fst (get_from_cache (task_env (example_tasks ([2, 0, 1] ! 2)))
               (task_state (example_tasks ([2, 0, 1] ! 2)))
               (get_cache_key example_config
                  (kw_keyword (truncate_keywords example_keywords None ! ([2, 0, 1] ! 2)))
                  ''full_research'')) = None"
    by code_simp
  have boom: "research_keyword (service example_config)
                (kw_keyword (truncate_keywords example_keywords None ! ([2, 0, 1] ! 2)))
              = Inl ''TypeError''"
    by code_simp
  have kw: "truncate_keywords example_keywords None ! ([2, 0, 1] ! 2) = example_kw 2 ''boom''"
    by code_simp
  have kw0: "truncate_keywords example_keywords None ! ([2, 0, 1] ! 0) = example_kw 3 ''k1''"
    by code_simp
  have j: "(2::nat) < length [2, 0, 1::nat]" and j0: "(0::nat) < length [2, 0, 1::nat]"
    by simp_all
  from process_keywords_parallel_outcomes [OF perm, of example_config example_tasks]
  have "map row_number (process_keywords_parallel example_config example_tasks [2, 0, 1]
                        example_keywords None)
          = map (\<lambda>i. kw_row_number (truncate_keywords example_keywords None ! i)) [2, 0, 1]"
    and "process_keywords_parallel example_config example_tasks [2, 0, 1] example_keywords None ! 2
          = worker_error_row (truncate_keywords example_keywords None ! ([2, 0, 1] ! 2))
              ''TypeError''"
    and "process_keywords_parallel example_config example_tasks [2, 0, 1] example_keywords None ! 0
          = error_row (truncate_keywords example_keywords None ! ([2, 0, 1] ! 0)) ''KeyError''"
    using j j0 raised raised0 miss boom by blast+
  with perm ok rows kw kw0 show ?thesis by simp
qed

subsection \<open>Rate limiter\<close>

lemma rate_limit_gap:
  assumes "limiter_now env + fst (rate_limit env s) \<le> limiter_after env"
  shows "last_request_time s + min_request_interval
           \<le> last_request_time (snd (rate_limit env s))"
proof (cases "limiter_now env - last_request_time s < min_request_interval")
  case True
  then have "fst (rate_limit env s)
               = min_request_interval - (limiter_now env - last_request_time s)"
    by (simp add: rate_limit_def Let_def)
  with assms have "last_request_time s + min_request_interval \<le> limiter_after env"
    by simp
  then show ?thesis by (simp add: rate_limit_def Let_def)
next
  case False
  then have "fst (rate_limit env s) = 0"
    by (simp add: rate_limit_def Let_def)
  with assms False have "last_request_time s + min_request_interval \<le> limiter_after env"
    by simp
  then show ?thesis by (simp add: rate_limit_def Let_def)
qed

lemma run_rate_limit_Cons:
  "run_rate_limit ((thread, env) # calls) s
     = last_request_time (snd (rate_limit env s)) # run_rate_limit calls (snd (rate_limit env s))"
  by (simp add: split_beta Let_def)

lemma run_rate_limit_gaps:
  "sleeps_complete calls s \<Longrightarrow>
     sorted_wrt (\<lambda>a b. a + min_request_interval \<le> b) (run_rate_limit calls s)
     \<and> (\<forall>t \<in> set (run_rate_limit calls s). last_request_time s + min_request_interval \<le> t)"
proof (induction calls arbitrary: s)
  case Nil
  then show ?case by simp
next
  case (Cons call calls)
  obtain thread env where call: "call = (thread, env)" by (cases call)
  define s' where "s' = snd (rate_limit env s)"
  from Cons.prems call have
    sleep: "limiter_now env + fst (rate_limit env s) \<le> limiter_after env"
    and rest: "sleeps_complete calls s'"
    by (simp_all add: s'_def)
  from rate_limit_gap [OF sleep] have
    gap: "last_request_time s + min_request_interval \<le> last_request_time s'"
    by (simp add: s'_def)
  from Cons.IH [OF rest] have
    sorted: "sorted_wrt (\<lambda>a b. a + min_request_interval \<le> b) (run_rate_limit calls s')"
    and later: "\<forall>t \<in> set (run_rate_limit calls s'). last_request_time s' + min_request_interval \<le> t"
    by simp_all
  have pos: "0 \<le> min_request_interval"
    by (simp add: min_request_interval_def)
  have run: "run_rate_limit (call # calls) s = last_request_time s' # run_rate_limit calls s'"
    unfolding call s'_def by (rule run_rate_limit_Cons)
  have "\<forall>t \<in> set (run_rate_limit calls s'). last_request_time s + min_request_interval \<le> t"
    using later gap pos by fastforce
  with sorted later gap show ?case
    by (simp add: run)
qed

text \<open>
  Claim C9. In a run of \<open>rate_limit\<close> by any worker threads, serialised by the lock,
  in which every sleep lasts at least as long as asked, any two recorded call times are
  at least \<open>min_request_interval\<close> apart, and the first is at least that much after the
  initial \<open>last_request_time\<close>. The threads that make the calls play no part.
\<close>

theorem rate_limit_recorded_times_apart:
  assumes "sleeps_complete calls s"
  shows "(\<forall>i j. i < j \<and> j < length (run_rate_limit calls s) \<longrightarrow>
            run_rate_limit calls s ! i + min_request_interval \<le> run_rate_limit calls s ! j)
         \<and> (\<forall>t \<in> set (run_rate_limit calls s). last_request_time s + min_request_interval \<le> t)
         \<and> length (run_rate_limit calls s) = length calls
         \<and> run_rate_limit (map (\<lambda>(thread, env). (other, env)) calls) s = run_rate_limit calls s"
proof -
  from run_rate_limit_gaps [OF assms] have
    sorted: "sorted_wrt (\<lambda>a b. a + min_request_interval \<le> b) (run_rate_limit calls s)"
    and first: "\<forall>t \<in> set (run_rate_limit calls s). last_request_time s + min_request_interval \<le> t"
    by simp_all
  from sorted have pairs:
    "\<forall>i j. i < j \<and> j < length (run_rate_limit calls s) \<longrightarrow>
        run_rate_limit calls s ! i + min_request_interval \<le> run_rate_limit calls s ! j"
    by (simp add: sorted_wrt_iff_nth_less)
  have len: "length (run_rate_limit calls s) = length calls"
    by (induction calls arbitrary: s) (auto simp: split_beta Let_def)
  have threads: "run_rate_limit (map (\<lambda>(thread, env). (other, env)) calls) s
                   = run_rate_limit calls s"
    by (induction calls arbitrary: s) (auto simp: split_beta Let_def)
  from pairs first len threads show ?thesis by blast
qed

theorem rate_limit_recorded_times_apart_witness:
  "sleeps_complete example_calls (empty_state :: pyval researcher_state)
   \<and> run_rate_limit example_calls (empty_state :: pyval researcher_state)
       = [10, 101 / 10, 105 / 10]
   \<and> run_rate_limit example_calls (empty_state :: pyval researcher_state) ! 0
       + min_request_interval
       \<le> run_rate_limit example_calls (empty_state :: pyval researcher_state) ! 1"
proof -
  have ok: "sleeps_complete example_calls (empty_state :: pyval researcher_state)"
    by (simp add: example_calls_def example_environment_def empty_state_def rate_limit_def
        min_request_interval_def)
  have run: "run_rate_limit example_calls (empty_state :: pyval researcher_state)
               = [10, 101 / 10, 105 / 10]"
    by (simp add: example_calls_def example_environment_def empty_state_def rate_limit_def
        min_request_interval_def)
  have len: "(0::nat) < 1 \<and> 1 < length (run_rate_limit example_calls
                                           (empty_state :: pyval researcher_state))"
    by (simp add: run)
  from rate_limit_recorded_times_apart [OF ok] len
  have "run_rate_limit example_calls (empty_state :: pyval researcher_state) ! 0
          + min_request_interval
        \<le> run_rate_limit example_calls (empty_state :: pyval researcher_state) ! 1"
    by blast
  with ok run show ?thesis by blast
qed

subsection \<open>Cache store\<close>

lemma those_map_Some:
  "(\<And>x. x \<in> set xs \<Longrightarrow> f x = Some x) \<Longrightarrow> those (map f xs) = Some xs"
  by (induction xs) auto

lemma those_length:
  "those xs = Some ys \<Longrightarrow> length ys = length xs"
  by (induction xs arbitrary: ys) (auto split: option.splits)

lemma json_roundtrip_shaped:
  "json_shaped v \<Longrightarrow> json_roundtrip v = Some v"
proof (induction v)
  case (PList xs)
  then have "those (map json_roundtrip xs) = Some xs"
    by (intro those_map_Some) (auto simp: list_all_iff)
  then show ?case by simp
next
  case (PDict kvs)
  have "those (map (\<lambda>(k, v). map_option (Pair k) (json_roundtrip v)) kvs) = Some kvs"
  proof (rule those_map_Some)
    fix p assume p: "p \<in> set kvs"
    obtain k v where kv: "p = (k, v)" by (cases p)
    with p PDict.prems have "json_shaped v" by (auto simp: list_all_iff)
    moreover have "v \<in> Basic_BNFs.snds p" using kv by simp
    ultimately have "json_roundtrip v = Some v" using PDict.IH p by blast
    with kv show "(case p of (k, v) \<Rightarrow> map_option (Pair k) (json_roundtrip v)) = Some p"
      by simp
  qed
  then show ?case by simp
qed simp_all

lemma json_roundtrip_truthy:
  "json_roundtrip v = Some w \<Longrightarrow> truthy w = truthy v"
  by (cases v) (auto dest!: those_length)

lemma cache_get_from_cache:
  "cache (snd (get_from_cache env s key)) = cache s"
  by (simp add: get_from_cache_def split: option.splits)

lemma get_from_cache_hit:
  assumes "cache s key = Some (v, expires_at)" and "read_now env < expires_at"
    and "db_read_ok env"
  shows "get_from_cache env s key = (Some v, s\<lparr>cache_hits := cache_hits s + 1\<rparr>)"
  using assms by (simp add: get_from_cache_def)

lemma get_from_cache_Some:
  assumes "get_from_cache env s key = (Some v, s')"
  shows "(\<exists>expires_at. cache s key = Some (v, expires_at))
         \<and> s' = s\<lparr>cache_hits := cache_hits s + 1\<rparr>"
  using assms by (auto simp: get_from_cache_def split: if_splits option.splits)

lemma save_to_cache_stored:
  assumes "expiry_representable cfg env" and "db_write_ok env" and "reload data = Some w"
  shows "cache (save_to_cache reload cfg env s key data) key
           = Some (w, write_now env + 3600 * of_int (cache_ttl_hours cfg))"
  using assms by (simp add: save_to_cache_def expiry_representable_def Let_def)

lemma fetch_and_cache_returned:
  assumes "fetch_and_cache cfg env s key fetched = (Inr v, s1, effects)"
  shows "(\<exists>slept. effects = [RateLimit slept, Fetch])
         \<and> (\<not> truthy v \<longrightarrow> cache s1 = cache s)
         \<and> (truthy v \<longrightarrow> cache s1 = cache (save_to_cache json_roundtrip cfg env s key v))"
  using assms
  by (auto simp: fetch_and_cache_def rate_limit_def save_to_cache_def Let_def
      split: sum.splits if_splits option.splits)

text \<open>A call that returns a value either hit the cache or went through the fetch.\<close>

lemma get_cached_or_fetch_returned:
  assumes "get_cached_or_fetch cfg env s key fetched = (Inr v, s1, effects)"
  shows "(effects = [] \<and> truthy v \<and> (\<exists>expires_at. cache s1 key = Some (v, expires_at)))
         \<or> (fetch_and_cache cfg env (snd (get_from_cache env s key)) key fetched
              = (Inr v, s1, effects))"
proof (cases "get_from_cache env s key")
  case (Pair cached_result s')
  show ?thesis
  proof (cases "\<exists>c. cached_result = Some c \<and> truthy c")
    case True
    then obtain c where c: "cached_result = Some c" "truthy c" by blast
    with Pair assms have "v = c" "s1 = s'" "effects = []"
      by (simp_all add: get_cached_or_fetch_def)
    moreover from Pair c(1) get_from_cache_Some [of env s key c s']
    have "\<exists>expires_at. cache s' key = Some (c, expires_at)"
      by auto
    ultimately show ?thesis using c(2) by simp
  next
    case False
    with Pair assms have "fetch_and_cache cfg env s' key fetched = (Inr v, s1, effects)"
      by (auto simp: get_cached_or_fetch_def split: option.splits)
    with Pair show ?thesis by simp
  qed
qed

text \<open>
  Claim C4, as stated, fails at each of these inputs, with the second call one second
  after the first and a time to live of 24 hours unless said otherwise. An empty result
  is not cached, because of the guard \<open>if result\<close>, and the second call waits in the rate
  limiter and fetches again. A tuple is cached and the second call does not fetch, but it
  returns a list. With a time to live of \<open>10^8\<close> hours \<open>expires_at\<close> overflows, with a
  failing database write or a failing database read the cache is of no use, and an object
  that \<open>json.dumps\<close> refuses is not stored: in these four cases a non-empty result is
  fetched again.
\<close>

theorem get_cached_or_fetch_second_call_differs:
  "snd (snd (get_cached_or_fetch example_config (example_environment 101)
        (fst (snd (get_cached_or_fetch example_config (example_environment 100) empty_state
                     ''key'' (Inr (PList [])))))
        ''key'' (Inr (PList []))))
     = [RateLimit 0, Fetch]
   \<and> fst (get_cached_or_fetch example_config (example_environment 100) empty_state
             ''key'' (Inr (PTuple [PInt 1, PInt 2])))
     = Inr (PTuple [PInt 1, PInt 2])
   \<and> get_cached_or_fetch example_config (example_environment 101)
        (fst (snd (get_cached_or_fetch example_config (example_environment 100) empty_state
                     ''key'' (Inr (PTuple [PInt 1, PInt 2])))))
        ''key'' (Inr (PTuple [PInt 1, PInt 2]))
     = (Inr (PList [PInt 1, PInt 2]),
        (fst (snd (get_cached_or_fetch example_config (example_environment 100) empty_state
                     ''key'' (Inr (PTuple [PInt 1, PInt 2])))))\<lparr>cache_hits := 1\<rparr>, [])
   \<and> snd (snd (get_cached_or_fetch (example_config\<lparr>cache_ttl_hours := 100000000\<rparr>)
        (example_environment 101)
        (fst (snd (get_cached_or_fetch (example_config\<lparr>cache_ttl_hours := 100000000\<rparr>)
                     (example_environment 100) empty_state ''key'' (Inr (PList [PNone])))))
        ''key'' (Inr (PList [PNone]))))
     = [RateLimit 0, Fetch]
   \<and> snd (snd (get_cached_or_fetch example_config (example_environment 101)
        (fst (snd (get_cached_or_fetch example_config
                     ((example_environment 100)\<lparr>db_write_ok := False\<rparr>) empty_state
                     ''key'' (Inr (PList [PNone])))))
        ''key'' (Inr (PList [PNone]))))
     = [RateLimit 0, Fetch]
   \<and> snd (snd (get_cached_or_fetch example_config
        ((example_environment 101)\<lparr>db_read_ok := False\<rparr>)
        (fst (snd (get_cached_or_fetch example_config (example_environment 100) empty_state
                     ''key'' (Inr (PList [PNone])))))
        ''key'' (Inr (PList [PNone]))))
     = [RateLimit 0, Fetch]
   \<and> snd (snd (get_cached_or_fetch example_config (example_environment 101)
        (fst (snd (get_cached_or_fetch example_config (example_environment 100) empty_state
                     ''key'' (Inr (PObject True)))))
        ''key'' (Inr (PObject True))))
     = [RateLimit 0, Fetch]"
  by (simp add: get_cached_or_fetch_def fetch_and_cache_def get_from_cache_def
      save_to_cache_def rate_limit_def min_request_interval_def timedelta_hours_ok_def
      datetime_in_range_def example_config_def example_environment_def empty_state_def)

text \<open>
  Claim C4, amended. Let the first call return a value \<open>v\<close>. If \<open>v\<close> is non-empty, the
  expiry time can be computed, the database write of the first call and the database
  read of the second succeed, \<open>json.dumps\<close> accepts \<open>v\<close>, and the second call with the
  same key comes before the expiry of the entry, then the second call does not wait in
  the rate limiter and does not call the fetch function; it counts one more cache hit and
  returns \<open>v\<close> itself when the first call was a cache hit, and otherwise what
  \<open>json.loads\<close> reads back from the stored text of \<open>v\<close>, which is \<open>v\<close> whenever \<open>v\<close>
  is built only from \<open>None\<close>, booleans, numbers, strings, lists and dictionaries with
  string keys (a tuple comes back as a list). If \<open>v\<close> is empty, the first call has gone
  through the rate limiter and the fetch function and has stored nothing.
\<close>

theorem get_cached_or_fetch_second_call:
  assumes "get_cached_or_fetch cfg env1 s key fetched1 = (Inr v, s1, effects1)"
  shows "(truthy v \<and> expiry_representable cfg env1 \<and> db_write_ok env1
          \<and> json_roundtrip v = Some w \<and> db_read_ok env2
          \<and> (\<forall>val expires_at. cache s1 key = Some (val, expires_at) \<longrightarrow> read_now env2 < expires_at)
          \<longrightarrow> get_cached_or_fetch cfg env2 s1 key fetched2
                = (Inr (if effects1 = [] then v else w),
                   s1\<lparr>cache_hits := cache_hits s1 + 1\<rparr>, [])
              \<and> (json_shaped v \<longrightarrow> w = v))
         \<and> (\<not> truthy v \<longrightarrow>
               cache s1 = cache s \<and> (\<exists>slept. effects1 = [RateLimit slept, Fetch]))"
proof -
  have empty: "\<not> truthy v \<longrightarrow>
                 cache s1 = cache s \<and> (\<exists>slept. effects1 = [RateLimit slept, Fetch])"
  proof
    assume "\<not> truthy v"
    with get_cached_or_fetch_returned [OF assms] have
      "fetch_and_cache cfg env1 (snd (get_from_cache env1 s key)) key fetched1
         = (Inr v, s1, effects1)"
      by blast
    from fetch_and_cache_returned [OF this] \<open>\<not> truthy v\<close>
    show "cache s1 = cache s \<and> (\<exists>slept. effects1 = [RateLimit slept, Fetch])"
      by (simp add: cache_get_from_cache)
  qed
  have second: "truthy v \<and> expiry_representable cfg env1 \<and> db_write_ok env1
          \<and> json_roundtrip v = Some w \<and> db_read_ok env2
          \<and> (\<forall>val expires_at. cache s1 key = Some (val, expires_at) \<longrightarrow> read_now env2 < expires_at)
          \<longrightarrow> get_cached_or_fetch cfg env2 s1 key fetched2
                = (Inr (if effects1 = [] then v else w),
                   s1\<lparr>cache_hits := cache_hits s1 + 1\<rparr>, [])
              \<and> (json_shaped v \<longrightarrow> w = v)"
  proof
    assume h: "truthy v \<and> expiry_representable cfg env1 \<and> db_write_ok env1
          \<and> json_roundtrip v = Some w \<and> db_read_ok env2
          \<and> (\<forall>val expires_at. cache s1 key = Some (val, expires_at) \<longrightarrow> read_now env2 < expires_at)"
    have same: "json_shaped v \<longrightarrow> w = v"
      using h json_roundtrip_shaped [of v] by auto
    define r where "r = (if effects1 = [] then v else w)"
    have entry: "\<exists>expires_at. cache s1 key = Some (r, expires_at)"
      using get_cached_or_fetch_returned [OF assms]
    proof
      assume "effects1 = [] \<and> truthy v \<and> (\<exists>expires_at. cache s1 key = Some (v, expires_at))"
      then show ?thesis by (simp add: r_def)
    next
      assume f: "fetch_and_cache cfg env1 (snd (get_from_cache env1 s key)) key fetched1
                   = (Inr v, s1, effects1)"
      from fetch_and_cache_returned [OF f] h have
        "effects1 \<noteq> []"
        "cache s1 = cache (save_to_cache json_roundtrip cfg env1
                             (snd (get_from_cache env1 s key)) key v)"
        by auto
      moreover from h have
        "cache (save_to_cache json_roundtrip cfg env1 (snd (get_from_cache env1 s key)) key v) key
           = Some (w, write_now env1 + 3600 * of_int (cache_ttl_hours cfg))"
        by (intro save_to_cache_stored) simp_all
      ultimately show ?thesis by (simp add: r_def)
    qed
    then obtain expires_at where e: "cache s1 key = Some (r, expires_at)" by blast
    with h have "read_now env2 < expires_at" by blast
    with e h have hit:
      "get_from_cache env2 s1 key = (Some r, s1\<lparr>cache_hits := cache_hits s1 + 1\<rparr>)"
      by (intro get_from_cache_hit) simp_all
    have "truthy r"
      using h json_roundtrip_truthy [of v w] by (simp add: r_def)
    with hit have "get_cached_or_fetch cfg env2 s1 key fetched2
                  = (Inr (if effects1 = [] then v else w),
                     s1\<lparr>cache_hits := cache_hits s1 + 1\<rparr>, [])"
      by (simp add: get_cached_or_fetch_def r_def)
    with same show "get_cached_or_fetch cfg env2 s1 key fetched2
                = (Inr (if effects1 = [] then v else w),
                   s1\<lparr>cache_hits := cache_hits s1 + 1\<rparr>, [])
              \<and> (json_shaped v \<longrightarrow> w = v)"
      by blast
  qed
  from second empty show ?thesis by blast
qed

theorem get_cached_or_fetch_second_call_witness:
  "truthy (PTuple [PInt 1, PInt 2])
   \<and> expiry_representable example_config (example_environment 100)
   \<and> db_write_ok (example_environment 100)
   \<and> json_roundtrip (PTuple [PInt 1, PInt 2]) = Some (PList [PInt 1, PInt 2])
   \<and> db_read_ok (example_environment 101)
   \<and> fst (get_cached_or_fetch example_config (example_environment 101)
             (fst (snd (get_cached_or_fetch example_config (example_environment 100) empty_state
                          ''key'' (Inr (PTuple [PInt 1, PInt 2])))))
             ''key'' (Inr (PStr ''other''))) = Inr (PList [PInt 1, PInt 2])
   \<and> snd (snd (get_cached_or_fetch example_config (example_environment 101)
             (fst (snd (get_cached_or_fetch example_config (example_environment 100) empty_state
                          ''key'' (Inr (PTuple [PInt 1, PInt 2])))))
             ''key'' (Inr (PStr ''other'')))) = []
   \<and> \<not> truthy (PList [])
   \<and> cache (fst (snd (get_cached_or_fetch example_config (example_environment 100)
                         (empty_state :: pyval researcher_state) ''key'' (Inr (PList [])))))
        = cache (empty_state :: pyval researcher_state)"
proof -
  define first where "first = get_cached_or_fetch example_config (example_environment 100)
    (empty_state :: pyval researcher_state) ''key'' (Inr (PTuple [PInt 1, PInt 2]))"
  define none where "none = get_cached_or_fetch example_config (example_environment 100)
    (empty_state :: pyval researcher_state) ''key'' (Inr (PList []))"
  have r1: "fst first = Inr (PTuple [PInt 1, PInt 2])"
    unfolding first_def by code_simp
  have e1: "snd (snd first) \<noteq> []"
    unfolding first_def by code_simp
  have call: "get_cached_or_fetch example_config (example_environment 100) empty_state ''key''
                (Inr (PTuple [PInt 1, PInt 2]))
              = (Inr (PTuple [PInt 1, PInt 2]), fst (snd first), snd (snd first))"
    using r1 by (simp add: first_def [symmetric] prod_eq_iff)
  have r0: "fst none = Inr (PList [])"
    unfolding none_def by code_simp
  have call0: "get_cached_or_fetch example_config (example_environment 100) empty_state ''key''
                 (Inr (PList [])) = (Inr (PList []), fst (snd none), snd (snd none))"
    using r0 by (simp add: none_def [symmetric] prod_eq_iff)
  have t: "truthy (PTuple [PInt 1, PInt 2])" by simp
  have x: "expiry_representable example_config (example_environment 100)"
    by (simp add: expiry_representable_def timedelta_hours_ok_def datetime_in_range_def
        example_config_def example_environment_def)
  have w: "db_write_ok (example_environment 100)" by (simp add: example_environment_def)
  have j: "json_roundtrip (PTuple [PInt 1, PInt 2]) = Some (PList [PInt 1, PInt 2])" by simp
  have r: "db_read_ok (example_environment 101)" by (simp add: example_environment_def)
  have stored: "cache (fst (snd first)) ''key'' = Some (PList [PInt 1, PInt 2], 86500)"
    unfolding first_def by code_simp
  have "read_now (example_environment 101) < 86500"
    by (simp add: example_environment_def)
  with stored have before:
    "\<forall>val expires_at. cache (fst (snd first)) ''key'' = Some (val, expires_at)
        \<longrightarrow> read_now (example_environment 101) < expires_at"
    by simp
  from get_cached_or_fetch_second_call [OF call, of "PList [PInt 1, PInt 2]"
      "example_environment 101" "Inr (PStr ''other'')"] t x w j r before e1
  have "get_cached_or_fetch example_config (example_environment 101) (fst (snd first)) ''key''
          (Inr (PStr ''other''))
        = (Inr (PList [PInt 1, PInt 2]),
           (fst (snd first))\<lparr>cache_hits := cache_hits (fst (snd first)) + 1\<rparr>, [])"
    by simp
  moreover from get_cached_or_fetch_second_call [OF call0]
  have "cache (fst (snd none)) = cache (empty_state :: pyval researcher_state)"
    by simp
  ultimately show ?thesis
    using t x w j r by (simp add: first_def none_def)
qed

text \<open>
  Claim C8. \<open>process_single_keyword_optimized\<close> saves whatever \<open>research_keyword\<close>
  returns. For a keyword without SERP data the returned dictionary carries \<open>error\<close>;
  it is stored under the keyword's cache key, and the next run for the same keyword is a
  cache hit on it, reported as a successful research.
\<close>

theorem failed_research_is_cached:
  "research_keyword (service example_config) ''nodata''
     = Inr \<lparr>error = Some ''Failed to get top 10 URLs for the keyword'',
            input_keyword = ''nodata'', original_top_10_urls = None,
            keywords_from_top_3_urls = None, supporting_keywords = None,
            total_supporting_keywords_found = None\<rparr>
   \<and> cache (snd (process_single_keyword_optimized example_config (example_environment 100)
                   empty_state (example_kw 1 ''nodata'')))
        (get_cache_key example_config ''nodata'' ''full_research'')
     = Some (\<lparr>error = Some ''Failed to get top 10 URLs for the keyword'',
              input_keyword = ''nodata'', original_top_10_urls = None,
              keywords_from_top_3_urls = None, supporting_keywords = None,
              total_supporting_keywords_found = None\<rparr>, 86500)
   \<and> cache_hits (snd (process_single_keyword_optimized example_config (example_environment 200)
        (snd (process_single_keyword_optimized example_config (example_environment 100)
                empty_state (example_kw 1 ''nodata'')))
        (example_kw 1 ''nodata''))) = 1
   \<and> research_successful (fst (process_single_keyword_optimized example_config
        (example_environment 200)
        (snd (process_single_keyword_optimized example_config (example_environment 100)
                empty_state (example_kw 1 ''nodata'')))
        (example_kw 1 ''nodata'')))"
  by code_simp

subsection \<open>Processing time of an outcome row\<close>

text \<open>
  Claim C10, as stated, fails: the success path subtracts two clock readings taken one
  after the other; when they are 20 ms apart the row reports \<open>-0.02\<close>.
\<close>

theorem processing_time_seconds_nonzero:
  "processing_time_seconds (fst (process_single_keyword_optimized example_config
       (example_environment 100) empty_state (example_kw 1 ''seed''))) = - (2 / 100)
   \<and> processing_time_seconds (fst (process_single_keyword_optimized example_config
       (example_environment 100) empty_state (example_kw 1 ''seed''))) \<noteq> 0"
  by code_simp

lemma round_half_even_small:
  assumes "\<bar>y\<bar> < 1 / 2"
  shows "round_half_even y = 0"
proof (cases "0 \<le> y")
  case True
  with assms have "\<lfloor>y\<rfloor> = 0" by (simp add: floor_eq_iff)
  with assms True show ?thesis by (simp add: round_half_even_def Let_def)
next
  case False
  with assms have "\<lfloor>y\<rfloor> = - 1" by (simp add: floor_eq_iff)
  with assms False show ?thesis by (simp add: round_half_even_def Let_def)
qed

lemma round_half_even_nonpos:
  assumes "y \<le> 0"
  shows "round_half_even y \<le> 0"
proof -
  define f where "f = \<lfloor>y\<rfloor>"
  have f0: "f \<le> 0"
    using assms by (simp add: f_def floor_le_iff)
  have f1: "f + 1 \<le> 0" if "y \<noteq> of_int f"
  proof -
    have "of_int f \<le> y" by (simp add: f_def)
    with that have "of_int f < y" by linarith
    with assms have "of_int f < (0::real)" by linarith
    then show ?thesis by simp
  qed
  have "round_half_even y = f \<or> (round_half_even y = f + 1 \<and> y \<noteq> of_int f)"
    by (auto simp: round_half_even_def Let_def f_def [symmetric])
  with f0 f1 show ?thesis by auto
qed

lemma py_round_2_small: "\<bar>x\<bar> < 5 / 1000 \<Longrightarrow> py_round x 2 = 0"
proof -
  assume "\<bar>x\<bar> < 5 / 1000"
  then have "\<bar>x * 100\<bar> < 1 / 2" by (simp add: abs_mult)
  then have "round_half_even (x * 100) = 0" by (rule round_half_even_small)
  then show ?thesis by (simp add: py_round_def)
qed

lemma py_round_2_nonpos: "x \<le> 0 \<Longrightarrow> py_round x 2 \<le> 0"
proof -
  assume "x \<le> 0"
  then have "x * 100 \<le> 0" by simp
  then have "round_half_even (x * 100) \<le> 0" by (rule round_half_even_nonpos)
  then have "(of_int (round_half_even (x * 100)) :: real) \<le> 0" by simp
  then show ?thesis by (simp add: py_round_def divide_le_0_iff)
qed

lemma processing_time_seconds_cases:
  "processing_time_seconds (fst (process_single_keyword_optimized cfg env s kw))
     = py_round (row_time_1 env - row_time_2 env) 2
   \<or> processing_time_seconds (fst (process_single_keyword_optimized cfg env s kw)) = 0"
  by (simp add: process_single_keyword_optimized_def Let_def success_row_def
      worker_error_row_fields add_original_columns_fields
      split: prod.splits option.splits sum.splits)

text \<open>
  Claim C10, amended. Every outcome row of \<open>process_single_keyword_optimized\<close> reports
  either the constant 0 (failure path) or \<open>round(t1 - t2, 2)\<close> for the two consecutive
  clock readings taken while the row is built (success path). The value is 0 whenever the
  two readings are less than 5 ms apart, and it is never positive when the clock does not
  run backwards: the processing time of the keyword is never measured.
\<close>

theorem processing_time_seconds_not_measured:
  "(processing_time_seconds (fst (process_single_keyword_optimized cfg env s kw))
      = py_round (row_time_1 env - row_time_2 env) 2
    \<or> processing_time_seconds (fst (process_single_keyword_optimized cfg env s kw)) = 0)
   \<and> (\<bar>row_time_1 env - row_time_2 env\<bar> < 5 / 1000 \<longrightarrow>
        processing_time_seconds (fst (process_single_keyword_optimized cfg env s kw)) = 0)
   \<and> (row_time_1 env \<le> row_time_2 env \<longrightarrow>
        processing_time_seconds (fst (process_single_keyword_optimized cfg env s kw)) \<le> 0)"
  using processing_time_seconds_cases [of cfg env s kw]
    py_round_2_small [of "row_time_1 env - row_time_2 env"]
    py_round_2_nonpos [of "row_time_1 env - row_time_2 env"]
  by auto


theorem processing_time_seconds_not_measured_witness:
  "\<bar>row_time_1 ((example_environment 100)\<lparr>row_time_2 := 100 + 1 / 1000\<rparr>)
      - row_time_2 ((example_environment 100)\<lparr>row_time_2 := 100 + 1 / 1000\<rparr>)\<bar> < 5 / 1000
   \<and> row_time_1 ((example_environment 100)\<lparr>row_time_2 := 100 + 1 / 1000\<rparr>)
        \<le> row_time_2 ((example_environment 100)\<lparr>row_time_2 := 100 + 1 / 1000\<rparr>)
   \<and> processing_time_seconds (fst (process_single_keyword_optimized example_config
        ((example_environment 100)\<lparr>row_time_2 := 100 + 1 / 1000\<rparr>) empty_state
        (example_kw 1 ''seed''))) = 0"
  using processing_time_seconds_not_measured
    [of example_config "(example_environment 100)\<lparr>row_time_2 := 100 + 1 / 1000\<rparr>"
        empty_state "example_kw 1 ''seed''"]
  by (simp add: example_environment_def)

end
